theory Spec2Isabelle
  imports Main "HOL-Library.Word" "HOL-Library.Sublist"
begin

unbundle bit_operations_syntax

section \<open>Bytes, packets and the GPST frame header (gpst.c)\<close>

text \<open>
  Data packets travel inside the SSL stream behind a 16-byte header (gpst.c, lines 41-49):
  the magic \<open>1a 2b 3c 4d\<close>, a big-endian EtherType, a big-endian 16-bit payload length
  and the eight bytes \<open>01 00 00 00 00 00 00 00\<close>.
\<close>

type_synonym byte = "8 word"

text \<open>
  Modelled from the spec: \<open>load_be16\<close>, \<open>load_be32\<close>, \<open>load_le32\<close>, \<open>store_be16\<close>,
  \<open>store_be32\<close> and \<open>store_le32\<close> are declared in openconnect-internal.h, which is not
  among the sources. The spec fixes what they do: big-endian and little-endian reads and
  writes of 16 and 32 bits at a byte offset of a buffer. A store overwrites bytes in place
  (\<open>xs[i := v]\<close>), so it never changes the length of the buffer.
\<close>

definition load_be16 :: "byte list \<Rightarrow> nat \<Rightarrow> 16 word" where
  "load_be16 b off = push_bit 8 (ucast (b ! off)) OR ucast (b ! (off + 1))"

definition load_be32 :: "byte list \<Rightarrow> nat \<Rightarrow> 32 word" where
  "load_be32 b off =
     push_bit 24 (ucast (b ! off)) OR push_bit 16 (ucast (b ! (off + 1)))
       OR push_bit 8 (ucast (b ! (off + 2))) OR ucast (b ! (off + 3))"

definition load_le32 :: "byte list \<Rightarrow> nat \<Rightarrow> 32 word" where
  "load_le32 b off =
     ucast (b ! off) OR push_bit 8 (ucast (b ! (off + 1)))
       OR push_bit 16 (ucast (b ! (off + 2))) OR push_bit 24 (ucast (b ! (off + 3)))"

definition store_be16 :: "byte list \<Rightarrow> nat \<Rightarrow> 16 word \<Rightarrow> byte list" where
  "store_be16 b off v = b[off := ucast (drop_bit 8 v), off + 1 := ucast v]"

definition store_be32 :: "byte list \<Rightarrow> nat \<Rightarrow> 32 word \<Rightarrow> byte list" where
  "store_be32 b off v =
     b[off := ucast (drop_bit 24 v), off + 1 := ucast (drop_bit 16 v),
       off + 2 := ucast (drop_bit 8 v), off + 3 := ucast v]"

definition store_le32 :: "byte list \<Rightarrow> nat \<Rightarrow> 32 word \<Rightarrow> byte list" where
  "store_le32 b off v =
     b[off := ucast v, off + 1 := ucast (drop_bit 8 v),
       off + 2 := ucast (drop_bit 16 v), off + 3 := ucast (drop_bit 24 v)]"

text \<open>
  \<open>struct pkt\<close>: the payload length \<open>len\<close> (a C \<open>int\<close>), the 16 header bytes \<open>gpst.hdr\<close>
  and, right behind them in memory, the payload \<open>data\<close>.
\<close>

record pkt =
  len :: int
  hdr :: "byte list"
  data :: "byte list"

text \<open>
  What \<open>ssl_nonblock_write(vpninfo, pkt->gpst.hdr, pkt->len + 16)\<close> is handed
  (lines 296-298): the first \<open>len + 16\<close> bytes starting at the header.
\<close>

definition gpst_wire :: "pkt \<Rightarrow> byte list" where
  "gpst_wire p = take (nat (len p + 16)) (hdr p @ data p)"

text \<open>
  Lines 330-335, the header stored into a packet taken off the outgoing queue.
  \<open>store_be16\<close> takes a \<open>uint16_t\<close>: the \<open>int\<close> length is converted, that is reduced
  modulo \<open>2 ^ 16\<close> (\<open>word_of_int\<close>). Nothing checks the length before.
\<close>

definition gpst_store_header :: "pkt \<Rightarrow> pkt" where
  "gpst_store_header this =
     (let h1 = store_be32 (hdr this) 0 0x1a2b3c4d;
          h2 = store_be16 h1 4 0x0800;
          h3 = store_be16 h2 6 (word_of_int (len this));
          h4 = store_le32 h3 8 1;
          h5 = store_le32 h4 12 0
      in this\<lparr>hdr := h5\<rparr>)"

text \<open>
  Lines 238-279, the checks on one received record \<open>buf\<close> of \<open>length buf\<close> bytes (the value
  \<open>ssl_nonblock_read\<close> returned). The four header checks all jump to \<open>unknown_pkt\<close>; the
  error names which check jumped. On success the packet is queued with
  \<open>len = payload_len\<close>.
\<close>

datatype frame_error = ShortHeader | BadMagic | BadEtherType | LengthMismatch | BadTrailer

definition gpst_recv_frame :: "byte list \<Rightarrow> frame_error + 16 word \<times> pkt" where
  "gpst_recv_frame buf =
     (if int (length buf) < 16 then Inl ShortHeader
      else
        let magic = load_be32 buf 0;
            ethertype = load_be16 buf 4;
            payload_len = uint (load_be16 buf 6);
            one = load_le32 buf 8;
            zero = load_le32 buf 12
        in if magic \<noteq> 0x1a2b3c4d then Inl BadMagic
           else if ethertype \<noteq> 0x800 then Inl BadEtherType
           else if int (length buf) \<noteq> 16 + payload_len then Inl LengthMismatch
           else if \<not> (one = 1 \<and> zero = 0) then Inl BadTrailer
           else Inr (ethertype, \<lparr>len = payload_len, hdr = take 16 buf, data = drop 16 buf\<rparr>))"

text \<open>The header the five stores leave in a 16-byte array, whatever it held before.\<close>

definition gpst_header :: "16 word \<Rightarrow> byte list" where
  "gpst_header n =
     [0x1a, 0x2b, 0x3c, 0x4d, 0x08, 0x00, ucast (drop_bit 8 n), ucast n, 1, 0, 0, 0, 0, 0, 0, 0]"

section \<open>The session state and its collaborators\<close>

text \<open>
  The error returns of \<open>parse_cookie\<close> and \<open>gpst_connect\<close>. The C functions return a
  negative errno; several returns share \<open>-EINVAL\<close> and differ in the branch taken and the
  message logged, so the model names the branch and \<open>gpst_errno\<close> gives the integer
  returned (errno values of Linux).
\<close>

definition EINTR :: int where "EINTR = 4"
definition EINVAL :: int where "EINVAL = 22"
definition EPIPE :: int where "EPIPE = 32"

datatype gpst_error =
    MalformedCookie             \<comment> \<open>line 85, "Invalid cookie"\<close>
  | MissingCredentials          \<comment> \<open>line 136, "Missing USERNAME and/or AUTH cookie"\<close>
  | TransportError int          \<comment> \<open>line 156, the failure of \<open>openconnect_open_https\<close>\<close>
  | Interrupted                 \<comment> \<open>line 171, \<open>ssl_read\<close> returned \<open>-EINTR\<close>\<close>
  | ReadFailed                  \<comment> \<open>line 174, "Error fetching GET-tunnel HTTPS response"\<close>
  | GatewayHttpError string     \<comment> \<open>line 186, "Got HTTP error in response to GET-tunnel request"\<close>
  | PeerClosed                  \<comment> \<open>line 190, "Gateway disconnected immediately"\<close>
  | UnexpectedResponse string   \<comment> \<open>line 194, "Got inappropriate response", with the bytes dumped\<close>

fun gpst_errno :: "gpst_error \<Rightarrow> int" where
  "gpst_errno MalformedCookie = - EINVAL"
| "gpst_errno MissingCredentials = - EINVAL"
| "gpst_errno (TransportError r) = r"
| "gpst_errno Interrupted = - EINTR"
| "gpst_errno ReadFailed = - EINVAL"
| "gpst_errno (GatewayHttpError s) = - EINVAL"
| "gpst_errno PeerClosed = - EPIPE"
| "gpst_errno (UnexpectedResponse s) = - EINVAL"

text \<open>\<open>vpninfo->cookies\<close>, the list of \<open>struct oc_vpn_option\<close>: option and value, in list order.\<close>

type_synonym cookie_store = "(string \<times> string) list"

text \<open>
  Modelled from the spec: the state flag of the parallel low-latency (DTLS) channel. The
  enumeration is declared in openconnect-internal.h, which is not among the sources; the
  code only asks whether the flag is \<open>DTLS_CONNECTED\<close>.
\<close>

datatype dtls_state = DTLS_CONNECTED | DTLS_NOT_CONNECTED

text \<open>
  The fields of \<open>struct openconnect_info\<close> that gpst.c reads or writes.

  Modelled from the spec: \<open>queue_packet\<close> and \<open>dequeue_packet\<close> are declared in
  openconnect-internal.h, which is not among the sources. By the spec the two queues are
  FIFO sequences of packets: a packet is queued at the end of the list and taken off its
  front.
\<close>

record openconnect_info =
  cookie :: "string option"          \<comment> \<open>\<open>vpninfo->cookie\<close>, \<open>None\<close> for \<open>NULL\<close>\<close>
  cookies :: cookie_store
  ip_addr :: "string option"         \<comment> \<open>\<open>ip_info.addr\<close>\<close>
  ip_netmask :: "string option"      \<comment> \<open>\<open>ip_info.netmask\<close>\<close>
  ip_mtu :: "32 word"                \<comment> \<open>\<open>ip_info.mtu\<close>\<close>
  ssl_fd :: int
  dtls_state :: dtls_state
  incoming_queue :: "pkt list"
  outgoing_queue :: "pkt list"
  current_ssl_pkt :: "pkt option"    \<comment> \<open>the packet whose write has not completed yet\<close>
  last_rx :: int                     \<comment> \<open>\<open>ssl_times.last_rx\<close>\<close>
  last_tx :: int                     \<comment> \<open>\<open>ssl_times.last_tx\<close>\<close>
  quit_reason :: "string option"

text \<open>
  The calls into the transport and the fd bookkeeping, in the order they are made. The
  functions themselves (TLS, polling) are outside gpst.c; the model records each call.
\<close>

datatype io_event =
    DisableIPv6 | OpenHttps | SslWrite string | SslRead nat | CloseHttps
  | MonitorFdNew | MonitorReadFd | MonitorWriteFd | MonitorExceptFd

text \<open>
  One outcome of a read on the transport: an error (the positive errno \<open>e\<close>, returned as
  \<open>- e\<close>) or the bytes that arrived. A read that asks for \<open>n\<close> bytes gets at most \<open>n\<close>
  of them, written over the start of the buffer; the rest of the buffer keeps what it held.
\<close>

datatype 'a io_read = ReadError nat | ReadBytes "'a list"

fun read_ret :: "'a io_read \<Rightarrow> nat \<Rightarrow> int" where
  "read_ret (ReadError e) n = - int e"
| "read_ret (ReadBytes bs) n = int (length (take n bs))"

fun read_into :: "'a list \<Rightarrow> 'a io_read \<Rightarrow> nat \<Rightarrow> 'a list" where
  "read_into buf (ReadError e) n = buf"
| "read_into buf (ReadBytes bs) n = take n bs @ drop (length (take n bs)) buf"

section \<open>Cookies (parse\_cookie)\<close>

text \<open>
  Modelled from the spec: \<open>http_add_cookie\<close> is defined in http.c, which is not among the
  sources. \<open>parse_cookie\<close> calls it with \<open>replace = 0\<close>; by the spec the store is an
  insertion-ordered mapping in which a key already present is never overwritten.
\<close>

definition http_add_cookie :: "cookie_store \<Rightarrow> string \<Rightarrow> string \<Rightarrow> cookie_store" where
  "http_add_cookie store option val =
     (if map_of store option = None then store @ [(option, val)] else store)"

text \<open>\<open>isspace\<close> of the C locale: space, and the controls from tab to carriage return.\<close>

definition isspace :: "char \<Rightarrow> bool" where
  "isspace c = (c = CHR '' '' \<or> (9 \<le> (of_char c :: nat) \<and> (of_char c :: nat) \<le> 13))"

text \<open>
  Lines 75-98. \<open>p\<close> is the text from the pointer \<open>p\<close> up to the terminating NUL. The
  field runs up to the first \<open>;\<close> (\<open>strchr(p, ';')\<close>, overwritten by NUL while the field
  is handled), the key up to the first \<open>=\<close> of the field. With no \<open>;\<close> left
  \<open>p\<close> becomes \<open>NULL\<close> and the loop ends; otherwise \<open>p\<close> steps over the \<open>;\<close> and the
  white space behind it, and the loop ends when nothing is left (\<open>*p = 0\<close>). The cookies
  added before a failure stay in the store.
\<close>

function parse_cookie_loop :: "string \<Rightarrow> cookie_store \<Rightarrow> (gpst_error \<times> cookie_store) + cookie_store" where
  "parse_cookie_loop p store =
     (if p = [] then Inr store
      else if CHR ''='' \<notin> set (takeWhile (\<lambda>c. c \<noteq> CHR '';'') p) then Inl (MalformedCookie, store)
      else if dropWhile (\<lambda>c. c \<noteq> CHR '';'') p = []
        then Inr (http_add_cookie store
                    (takeWhile (\<lambda>c. c \<noteq> CHR ''='') (takeWhile (\<lambda>c. c \<noteq> CHR '';'') p))
                    (tl (dropWhile (\<lambda>c. c \<noteq> CHR ''='') (takeWhile (\<lambda>c. c \<noteq> CHR '';'') p))))
      else parse_cookie_loop
             (dropWhile isspace (tl (dropWhile (\<lambda>c. c \<noteq> CHR '';'') p)))
             (http_add_cookie store
                (takeWhile (\<lambda>c. c \<noteq> CHR ''='') (takeWhile (\<lambda>c. c \<noteq> CHR '';'') p))
                (tl (dropWhile (\<lambda>c. c \<noteq> CHR ''='') (takeWhile (\<lambda>c. c \<noteq> CHR '';'') p)))))"
  by pat_completeness auto
termination
proof (relation "measure (\<lambda>(p, store). length p)")
  show "wf (measure (\<lambda>(p, store). length p))" by simp
next
  fix p :: string and store :: cookie_store
  assume ne: "dropWhile (\<lambda>c. c \<noteq> CHR '';'') p \<noteq> []"
  have "length (dropWhile isspace (tl (dropWhile (\<lambda>c. c \<noteq> CHR '';'') p)))
          \<le> length (tl (dropWhile (\<lambda>c. c \<noteq> CHR '';'') p))"
    by (rule length_dropWhile_le)
  also have "\<dots> < length (dropWhile (\<lambda>c. c \<noteq> CHR '';'') p)"
    using ne by (cases "dropWhile (\<lambda>c. c \<noteq> CHR '';'') p") simp_all
  also have "\<dots> \<le> length p"
    by (rule length_dropWhile_le)
  finally show "((dropWhile isspace (tl (dropWhile (\<lambda>c. c \<noteq> CHR '';'') p)),
                   http_add_cookie store
                     (takeWhile (\<lambda>c. c \<noteq> CHR ''='') (takeWhile (\<lambda>c. c \<noteq> CHR '';'') p))
                     (tl (dropWhile (\<lambda>c. c \<noteq> CHR ''='') (takeWhile (\<lambda>c. c \<noteq> CHR '';'') p)))),
                  (p, store)) \<in> measure (\<lambda>(p, store). length p)"
    by simp
qed

text \<open>
  The same walk, for what it leaves in \<open>vpninfo->cookie\<close>. The \<open>=\<close> and the \<open>;\<close> that an
  iteration overwrites are put back (lines 89 and 93), except on the error return of line
  85: there the NUL written over the \<open>;\<close> that ends the failing field (line 80) stays, and
  the cookie text ends at it. \<open>parse_cookie_cut p\<close> is the number of characters lost behind
  that NUL, 0 when nothing is cut.
\<close>

function parse_cookie_cut :: "string \<Rightarrow> nat" where
  "parse_cookie_cut p =
     (if p = [] then 0
      else if CHR ''='' \<notin> set (takeWhile (\<lambda>c. c \<noteq> CHR '';'') p)
        then length (dropWhile (\<lambda>c. c \<noteq> CHR '';'') p)
      else if dropWhile (\<lambda>c. c \<noteq> CHR '';'') p = [] then 0
      else parse_cookie_cut (dropWhile isspace (tl (dropWhile (\<lambda>c. c \<noteq> CHR '';'') p))))"
  by pat_completeness auto
termination
proof (relation "measure length")
  show "wf (measure length)" by simp
next
  fix p :: string
  assume ne: "dropWhile (\<lambda>c. c \<noteq> CHR '';'') p \<noteq> []"
  have "length (dropWhile isspace (tl (dropWhile (\<lambda>c. c \<noteq> CHR '';'') p)))
          \<le> length (tl (dropWhile (\<lambda>c. c \<noteq> CHR '';'') p))"
    by (rule length_dropWhile_le)
  also have "\<dots> < length (dropWhile (\<lambda>c. c \<noteq> CHR '';'') p)"
    using ne by (cases "dropWhile (\<lambda>c. c \<noteq> CHR '';'') p") simp_all
  also have "\<dots> \<le> length p"
    by (rule length_dropWhile_le)
  finally show "(dropWhile isspace (tl (dropWhile (\<lambda>c. c \<noteq> CHR '';'') p)), p) \<in> measure length"
    by simp
qed

text \<open>
  Lines 67-101: a \<open>NULL\<close> cookie skips the loop. On the error return the store keeps the
  cookies added so far and the cookie text is cut as described above.
\<close>

definition parse_cookie :: "openconnect_info \<Rightarrow> (gpst_error + unit) \<times> openconnect_info" where
  "parse_cookie vpninfo =
     (case cookie vpninfo of
        None \<Rightarrow> (Inr (), vpninfo)
      | Some p \<Rightarrow>
          (case parse_cookie_loop p (cookies vpninfo) of
             Inl (e, store) \<Rightarrow>
               (Inl e, vpninfo\<lparr>cookies := store,
                                 cookie := Some (take (length p - parse_cookie_cut p) p)\<rparr>)
           | Inr store \<Rightarrow> (Inr (), vpninfo\<lparr>cookies := store\<rparr>)))"

text \<open>
  The parse as the spec words it, for comparison with the loop above: split the raw text on
  \<open>;\<close>, trim leading white space from each field after the first, split each field on its
  first \<open>=\<close>, fail when a field has none; empty input gives the empty store.
\<close>

fun split_on :: "char \<Rightarrow> string \<Rightarrow> string list" where
  "split_on sep [] = [] # []"
| "split_on sep (c # cs) =
     (if c = sep then [] # split_on sep cs
      else (case split_on sep cs of f # fs \<Rightarrow> (c # f) # fs | [] \<Rightarrow> [c] # []))"

definition cookie_fields :: "string \<Rightarrow> string list" where
  "cookie_fields raw =
     hd (split_on CHR '';'' raw) # map (dropWhile isspace) (tl (split_on CHR '';'' raw))"

definition field_key :: "string \<Rightarrow> string" where
  "field_key f = takeWhile (\<lambda>c. c \<noteq> CHR ''='') f"

definition field_value :: "string \<Rightarrow> string" where
  "field_value f = tl (dropWhile (\<lambda>c. c \<noteq> CHR ''='') f)"

fun add_fields :: "string list \<Rightarrow> cookie_store \<Rightarrow> (gpst_error \<times> cookie_store) + cookie_store" where
  "add_fields [] store = Inr store"
| "add_fields (f # fs) store =
     (if CHR ''='' \<notin> set f then Inl (MalformedCookie, store)
      else add_fields fs (http_add_cookie store (field_key f) (field_value f)))"

definition spec_parse :: "string \<Rightarrow> (gpst_error \<times> cookie_store) + cookie_store" where
  "spec_parse raw = (if raw = [] then Inr [] else add_fields (cookie_fields raw) [])"

text \<open>The fields the loop really visits: a last field that is empty is not one of them.\<close>

definition drop_empty_last :: "string list \<Rightarrow> string list" where
  "drop_empty_last fs = (if last fs = [] then butlast fs else fs)"

section \<open>Session negotiation (gpst\_connect)\<close>

text \<open>
  \<open>atoi\<close> of the C library, \<open>(int) strtol(s, NULL, 10)\<close>: white space, an optional sign,
  then decimal digits up to the first other character. \<open>strtol\<close> returns a \<open>long\<close> of 64
  bits and saturates at \<open>LONG_MIN\<close> and \<open>LONG_MAX\<close>; the conversion to the 32-bit \<open>int\<close>
  keeps the low 32 bits (\<open>word_of_int\<close>). C leaves \<open>atoi\<close> undefined outside the range of
  \<open>int\<close>; this is what the GNU C library does there. An \<open>int\<close> is a \<open>32 word\<close>, read as a
  signed number by \<open>sint\<close>.
\<close>

type_synonym c_int = "32 word"

definition LONG_MAX :: int where "LONG_MAX = 2 ^ 63 - 1"
definition LONG_MIN :: int where "LONG_MIN = - (2 ^ 63)"

definition isdigit :: "char \<Rightarrow> bool" where
  "isdigit c = (48 \<le> (of_char c :: nat) \<and> (of_char c :: nat) \<le> 57)"

fun atoi_digits :: "string \<Rightarrow> int \<Rightarrow> int" where
  "atoi_digits [] acc = acc"
| "atoi_digits (c # cs) acc =
     (if isdigit c then atoi_digits cs (10 * acc + (of_char c - 48)) else acc)"

definition strtol :: "string \<Rightarrow> int" where
  "strtol s =
     max LONG_MIN (min LONG_MAX
       (case dropWhile isspace s of
          [] \<Rightarrow> 0
        | c # cs \<Rightarrow>
            if c = CHR ''-'' then - atoi_digits cs 0
            else if c = CHR ''+'' then atoi_digits cs 0
            else atoi_digits (c # cs) 0))"

definition atoi :: "string \<Rightarrow> c_int" where
  "atoi s = word_of_int (strtol s)"


text \<open>The locals of \<open>gpst_connect\<close> that the loop over the cookies fills (lines 106-109).\<close>

record cookie_vars =
  tunnel_path :: "string option"
  username :: "string option"
  authcookie :: "string option"
  ipaddr :: "string option"
  mtu :: c_int

definition cookie_vars0 :: cookie_vars where
  "cookie_vars0 =
     \<lparr>tunnel_path = None, username = None, authcookie = None, ipaddr = None, mtu = - 1\<rparr>"

text \<open>Lines 121-132: every cookie of the list is looked at, a later one overwrites.\<close>

fun gpst_scan_cookies :: "cookie_store \<Rightarrow> cookie_vars \<Rightarrow> cookie_vars" where
  "gpst_scan_cookies [] l = l"
| "gpst_scan_cookies ((opt, val) # rest) l =
     gpst_scan_cookies rest
       (if opt = ''TUNNEL'' then l\<lparr>tunnel_path := Some val\<rparr>
        else if opt = ''USER'' then l\<lparr>username := Some val\<rparr>
        else if opt = ''AUTH'' then l\<lparr>authcookie := Some val\<rparr>
        else if opt = ''IP'' then l\<lparr>ipaddr := Some val\<rparr>
        else if opt = ''MTU'' then l\<lparr>mtu := atoi val\<rparr>
        else l)"

record session_params =
  sp_username :: string
  sp_authcookie :: string
  sp_tunnel_path :: string
  sp_ipaddr :: string
  sp_mtu :: c_int

text \<open>Lines 121-149: the scan, the check for USER and AUTH, then the three defaults.\<close>

definition gpst_session_params :: "cookie_store \<Rightarrow> gpst_error + session_params" where
  "gpst_session_params store =
     (let l = gpst_scan_cookies store cookie_vars0 in
      case (username l, authcookie l) of
        (Some u, Some a) \<Rightarrow>
          Inr \<lparr>sp_username = u, sp_authcookie = a,
               sp_tunnel_path =
                 (case tunnel_path l of None \<Rightarrow> ''/ssl-tunnel-connect.sslvpn'' | Some t \<Rightarrow> t),
               sp_ipaddr = (case ipaddr l of None \<Rightarrow> ''0.0.0.0'' | Some i \<Rightarrow> i),
               sp_mtu = (if sint (mtu l) \<le> 0 then 1500 else mtu l)\<rparr>
      | _ \<Rightarrow> Inl MissingCredentials)"

text \<open>
  Lines 158-161, the request. \<open>buf_append_urlencoded\<close> is outside gpst.c: the encoding is
  a parameter.
\<close>

definition gpst_request :: "(string \<Rightarrow> string) \<Rightarrow> session_params \<Rightarrow> string" where
  "gpst_request enc sp =
     ''GET '' @ sp_tunnel_path sp @ ''?user='' @ enc (sp_username sp) @ ''&authcookie=''
       @ sp_authcookie sp @ '' HTTP/1.1'' @ [CHR 0x0D, CHR 0x0A, CHR 0x0D, CHR 0x0A]"

text \<open>
  \<open>strncmp(a, b, n) == 0\<close>: the two C strings (each ends at its first NUL) agree on their
  first \<open>n\<close> characters.
\<close>

definition strncmp_eq :: "string \<Rightarrow> string \<Rightarrow> nat \<Rightarrow> bool" where
  "strncmp_eq a b n =
     (take n (takeWhile (\<lambda>c. c \<noteq> CHR 0x00) a) = take n (takeWhile (\<lambda>c. c \<noteq> CHR 0x00) b))"

text \<open>
  Lines 177-195, the dispatch on the response. \<open>buf\<close> is the whole 256-byte array after
  the read and \<open>ret\<close> the number of bytes the read delivered. The two comparisons look at
  the first 12 and the first 5 bytes of the array whatever \<open>ret\<close> is; \<open>ret = 0\<close> is
  tested after them.
\<close>

definition gpst_response :: "string \<Rightarrow> int \<Rightarrow> gpst_error + unit" where
  "gpst_response buf ret =
     (if strncmp_eq buf ''START_TUNNEL'' 12 then Inr ()
      else if strncmp_eq buf ''HTTP/'' 5 then Inl (GatewayHttpError (take (nat ret) buf))
      else if ret = 0 then Inl PeerClosed
      else Inl (UnexpectedResponse (take (nat ret) buf)))"

definition gpst_ret :: "gpst_error + unit \<Rightarrow> int" where
  "gpst_ret r = (case r of Inl e \<Rightarrow> gpst_errno e | Inr u \<Rightarrow> 0)"

text \<open>
  What one run of \<open>gpst_connect\<close> meets: the return value of \<open>openconnect_open_https\<close>,
  the outcome of \<open>ssl_read(vpninfo, buf, 256)\<close>, and what the array \<open>char buf[256]\<close>, which
  is not initialised, holds before the read.
\<close>

record connect_env =
  open_https_ret :: int
  handshake_read :: "char io_read"
  stack_buf :: string
  urlencode :: "string \<Rightarrow> string"

text \<open>
  Lines 151-207, from \<open>openconnect_disable_ipv6\<close> on. The result is the status
  (\<open>gpst_ret\<close> of it is the C return value), the state, and the calls made, in order. The
  block at \<open>out:\<close> (lines 197-204) is reached from the dispatch on the response only: the
  returns after a failed open and after a failed read leave directly.
\<close>

definition gpst_handshake ::
  "connect_env \<Rightarrow> openconnect_info \<Rightarrow> session_params
     \<Rightarrow> (gpst_error + unit) \<times> openconnect_info \<times> io_event list" where
  "gpst_handshake env v sp =
     (if open_https_ret env \<noteq> 0
      then (Inl (TransportError (open_https_ret env)), v, [DisableIPv6, OpenHttps])
      else
        let io = [DisableIPv6, OpenHttps, SslWrite (gpst_request (urlencode env) sp), SslRead 256];
            ret = read_ret (handshake_read env) 256;
            buf = read_into (stack_buf env) (handshake_read env) 256
        in if ret < 0
           then (if ret = - EINTR then (Inl Interrupted, v, io) else (Inl ReadFailed, v, io))
           else
             let r = gpst_response buf ret;
                 v' = (case r of
                         Inr u \<Rightarrow> v\<lparr>ip_addr := Some (sp_ipaddr sp),
                                     ip_netmask := Some ''255.255.255.255'',
                                     ip_mtu := sp_mtu sp\<rparr>
                       | Inl e \<Rightarrow> v)
             in (r, v',
                 io @ (if gpst_ret r < 0 then [CloseHttps]
                       else [MonitorFdNew, MonitorReadFd, MonitorExceptFd])))"

text \<open>
  Lines 115-119, the cookie is parsed only when the store is empty; then lines 121-149
  and the handshake.
\<close>

definition gpst_cookie_step :: "openconnect_info \<Rightarrow> (gpst_error + unit) \<times> openconnect_info" where
  "gpst_cookie_step vpninfo =
     (if cookies vpninfo = [] then parse_cookie vpninfo else (Inr (), vpninfo))"

definition gpst_connect ::
  "connect_env \<Rightarrow> openconnect_info \<Rightarrow> (gpst_error + unit) \<times> openconnect_info \<times> io_event list" where
  "gpst_connect env vpninfo =
     (case gpst_cookie_step vpninfo of
        (Inl e, v) \<Rightarrow> (Inl e, v, [])
      | (Inr u, v) \<Rightarrow>
          (case gpst_session_params (cookies v) of
             Inl e \<Rightarrow> (Inl e, v, [])
           | Inr sp \<Rightarrow> gpst_handshake env v sp))"

text \<open>A session and a transport to run the negotiation on, for the examples below.\<close>

definition vpninfo0 :: openconnect_info where
  "vpninfo0 =
     \<lparr>cookie = None, cookies = [(''USER'', ''u''), (''AUTH'', ''t'')],
      ip_addr = None, ip_netmask = None, ip_mtu = 0, ssl_fd = 3,
      dtls_state = DTLS_NOT_CONNECTED, incoming_queue = [], outgoing_queue = [],
      current_ssl_pkt = None, last_rx = 0, last_tx = 0, quit_reason = None\<rparr>"

definition connect_env0 :: "char io_read \<Rightarrow> string \<Rightarrow> connect_env" where
  "connect_env0 rd stale =
     \<lparr>open_https_ret = 0, handshake_read = rd, stack_buf = stale, urlencode = (\<lambda>s. s)\<rparr>"

text \<open>The same session with an MTU cookie \<open>m\<close> behind USER and AUTH.\<close>

definition vpninfo_mtu :: "string \<Rightarrow> openconnect_info" where
  "vpninfo_mtu m = vpninfo0\<lparr>cookies := [(''USER'', ''u''), (''AUTH'', ''t''), (''MTU'', m)]\<rparr>"

text \<open>The failures that the dispatch on the response produces (lines 183-195).\<close>

fun response_error :: "gpst_error + unit \<Rightarrow> bool" where
  "response_error (Inl (GatewayHttpError s)) = True"
| "response_error (Inl PeerClosed) = True"
| "response_error (Inl (UnexpectedResponse s)) = True"
| "response_error r = False"

section \<open>The main loop (gpst\_mainloop)\<close>

text \<open>
  What one invocation meets: the outcomes of the successive \<open>ssl_nonblock_read\<close> calls
  (with none left the transport has nothing to deliver and the read returns 0), the return
  values of the successive \<open>ssl_nonblock_write\<close> calls (with none left the transport
  accepts nothing and the write returns 0), the return value of \<open>ssl_reconnect\<close>, and the
  clock \<open>time(NULL)\<close>, which does not advance within one invocation. Logging, the hex dumps
  and \<open>unmonitor_write_fd\<close> leave no trace in the model, and the allocation of the receive
  buffer succeeds.
\<close>

record mainloop_env =
  reads :: "byte io_read list"
  writes :: "int list"
  reconnect_ret :: int
  now :: int

text \<open>Lines 301-308, \<open>do_reconnect\<close>.\<close>

definition do_reconnect :: "int \<Rightarrow> openconnect_info \<Rightarrow> int \<times> openconnect_info" where
  "do_reconnect rc v =
     (if rc \<noteq> 0 then (rc, v\<lparr>quit_reason := Some ''GPST reconnect failed''\<rparr>) else (1, v))"

text \<open>
  Lines 219-281, the receive loop, asking for \<open>65536 + 16\<close> bytes each time. It leaves to
  the write phase (\<open>ReadDone\<close>), to \<open>do_reconnect\<close> or with a return of 1 and a quit reason.
\<close>

datatype read_exit = ReadDone | ReadReconnect | ReadQuit

fun gpst_read_loop ::
  "int \<Rightarrow> byte io_read list \<Rightarrow> openconnect_info \<Rightarrow> int \<Rightarrow> read_exit \<times> openconnect_info \<times> int" where
  "gpst_read_loop t [] v work_done = (ReadDone, v, work_done)"
| "gpst_read_loop t (r # rs) v work_done =
     (if read_ret r 65552 = 0 then (ReadDone, v, work_done)
      else if read_ret r 65552 < 0 then (ReadReconnect, v, work_done)
      else
        (case gpst_recv_frame (read_into [] r 65552) of
           Inl ShortHeader \<Rightarrow> (ReadQuit, v\<lparr>quit_reason := Some ''Short packet received''\<rparr>, work_done)
         | Inl e \<Rightarrow> (ReadQuit, v\<lparr>quit_reason := Some ''Unknown packet received''\<rparr>, work_done)
         | Inr (ethertype, p) \<Rightarrow>
             gpst_read_loop t rs
               (v\<lparr>last_rx := t, incoming_queue := incoming_queue v @ [p]\<rparr>) 1))"

text \<open>
  Lines 288-322, one pass through \<open>handle_outgoing\<close> for the packet \<open>p\<close> in flight, with
  \<open>ret\<close> the value \<open>ssl_nonblock_write\<close> returns. The time stamp is set before the write
  is issued (line 289). Only a write of all \<open>len + 16\<close> bytes clears the slot.
\<close>

datatype write_exit = Sent | Blocked | WriteError | ShortWrite

definition handle_outgoing ::
  "int \<Rightarrow> int \<Rightarrow> openconnect_info \<Rightarrow> pkt \<Rightarrow> write_exit \<times> openconnect_info" where
  "handle_outgoing t ret v p =
     (let v1 = v\<lparr>last_tx := t\<rparr>
      in if ret < 0 then (WriteError, v1)
         else if ret = 0 then (Blocked, v1)
         else if ret \<noteq> len p + 16 then (ShortWrite, v1\<lparr>quit_reason := Some ''Internal error''\<rparr>)
         else (Sent, v1\<lparr>current_ssl_pkt := None\<rparr>))"

text \<open>
  Lines 284-345, the write phase: \<open>handle_outgoing\<close> for the packet in flight, then the
  outgoing queue, each packet taken off it getting its header and going through
  \<open>handle_outgoing\<close> in turn. \<open>write_ret ws\<close> is what the next \<open>ssl_nonblock_write\<close>
  returns. The last component collects the buffers handed to \<open>ssl_nonblock_write\<close>, in
  order.
\<close>

definition write_ret :: "int list \<Rightarrow> int" where
  "write_ret ws = (case ws of [] \<Rightarrow> 0 | w # ws' \<Rightarrow> w)"

function gpst_outgoing ::
  "int \<Rightarrow> int \<Rightarrow> int list \<Rightarrow> openconnect_info \<Rightarrow> int \<Rightarrow> byte list list
     \<Rightarrow> int \<times> openconnect_info \<times> byte list list" where
  "gpst_outgoing t rc ws v work_done sent =
     (case current_ssl_pkt v of
        Some p \<Rightarrow>
          (if fst (handle_outgoing t (write_ret ws) v p) = Sent
           then gpst_outgoing t rc (tl ws)
                  (snd (handle_outgoing t (write_ret ws) v p))
                  work_done (sent @ [gpst_wire p])
           else
             (case handle_outgoing t (write_ret ws) v p of
                (WriteError, v1) \<Rightarrow>
                  (fst (do_reconnect rc v1), snd (do_reconnect rc v1), sent @ [gpst_wire p])
              | (Blocked, v1) \<Rightarrow> (work_done, v1, sent @ [gpst_wire p])
              | (ex, v1) \<Rightarrow> (1, v1, sent @ [gpst_wire p])))
      | None \<Rightarrow>
          (if dtls_state v \<noteq> DTLS_CONNECTED
           then (case outgoing_queue v of
                   [] \<Rightarrow> (work_done, v, sent)
                 | this # q \<Rightarrow>
                     gpst_outgoing t rc ws
                       (v\<lparr>outgoing_queue := q, current_ssl_pkt := Some (gpst_store_header this)\<rparr>)
                       work_done sent)
           else (work_done, v, sent)))"
  by pat_completeness auto
termination
  by (relation "measure (\<lambda>(t, rc, ws, v, work_done, sent).
        2 * length (outgoing_queue v) + (case current_ssl_pkt v of None \<Rightarrow> 0 | Some p \<Rightarrow> 1))")
     (auto simp: handle_outgoing_def Let_def split: if_splits)

text \<open>Lines 209-360.\<close>

definition gpst_mainloop ::
  "mainloop_env \<Rightarrow> openconnect_info \<Rightarrow> int \<times> openconnect_info \<times> byte list list" where
  "gpst_mainloop env vpninfo =
     (if ssl_fd vpninfo = - 1
      then (fst (do_reconnect (reconnect_ret env) vpninfo),
            snd (do_reconnect (reconnect_ret env) vpninfo), [])
      else
        (case gpst_read_loop (now env) (reads env) vpninfo 0 of
           (ReadReconnect, v, work_done) \<Rightarrow>
             (fst (do_reconnect (reconnect_ret env) v), snd (do_reconnect (reconnect_ret env) v), [])
         | (ReadQuit, v, work_done) \<Rightarrow> (1, v, [])
         | (ReadDone, v, work_done) \<Rightarrow>
             gpst_outgoing (now env) (reconnect_ret env) (writes env) v work_done []))"

text \<open>The packets the write phase may hand to the transport, in order.\<close>

definition pending :: "openconnect_info \<Rightarrow> pkt list" where
  "pending v =
     (case current_ssl_pkt v of None \<Rightarrow> [] | Some p \<Rightarrow> [p])
       @ (if dtls_state v = DTLS_CONNECTED then [] else map gpst_store_header (outgoing_queue v))"

text \<open>A packet in flight whose header bytes are not a frame header, for the examples below.\<close>

definition pkt0 :: pkt where
  "pkt0 = \<lparr>len = 2, hdr = [9, 9, 9, 9, 9, 9, 9, 9, 9, 9, 9, 9, 9, 9, 9, 9], data = [7, 8]\<rparr>"

section \<open>The frame codec\<close>

lemma len16E:
  assumes "length (h :: 'a list) = 16"
  obtains a0 a1 a2 a3 a4 a5 a6 a7 a8 a9 a10 a11 a12 a13 a14 a15 where
    "h = [a0, a1, a2, a3, a4, a5, a6, a7, a8, a9, a10, a11, a12, a13, a14, a15]"
proof -
  have "length h = Suc (Suc (Suc (Suc (Suc (Suc (Suc (Suc (Suc (Suc (Suc (Suc (Suc (Suc (Suc (Suc 0)))))))))))))))"
    using assms by simp
  then show ?thesis using that by (auto simp: length_Suc_conv)
qed

lemma be16_join:
  "push_bit 8 (ucast (ucast (drop_bit 8 v) :: byte)) OR ucast (ucast v :: byte) = (v :: 16 word)"
  by (rule bit_word_eqI) (auto simp add: bit_simps)

lemma hdr_store_header:
  assumes "length (hdr p) = 16"
  shows "hdr (gpst_store_header p) = gpst_header (word_of_int (len p))"
proof -
  from assms obtain a0 a1 a2 a3 a4 a5 a6 a7 a8 a9 a10 a11 a12 a13 a14 a15 where
    "hdr p = [a0, a1, a2, a3, a4, a5, a6, a7, a8, a9, a10, a11, a12, a13, a14, a15]"
    by (rule len16E)
  then show ?thesis
    by (simp add: gpst_store_header_def gpst_header_def store_be32_def store_be16_def
        store_le32_def)
qed

lemma load_gpst_header:
  "load_be32 (gpst_header n @ d) 0 = 0x1a2b3c4d"
  "load_be16 (gpst_header n @ d) 4 = 0x800"
  "load_be16 (gpst_header n @ d) 6 = n"
  "load_le32 (gpst_header n @ d) 8 = 1"
  "load_le32 (gpst_header n @ d) 12 = 0"
  by (simp_all add: gpst_header_def load_be32_def load_be16_def load_le32_def be16_join)

lemma length_gpst_header: "length (gpst_header n) = 16"
  by (simp add: gpst_header_def)

lemma uint_len16: "0 \<le> n \<Longrightarrow> n \<le> 65535 \<Longrightarrow> uint (word_of_int n :: 16 word) = n"
  by (simp add: uint_word_of_int take_bit_int_eq_self)

lemma declared_length:
  assumes "length (hdr p) = 16"
  shows "uint (load_be16 (hdr (gpst_store_header p)) 6) = len p mod 65536"
  using assms load_gpst_header(3) [where d = "[]"]
  by (simp add: hdr_store_header uint_word_of_int take_bit_eq_mod)

lemma len_store_header: "len (gpst_store_header p) = len p"
  by (simp add: gpst_store_header_def Let_def)

lemma data_store_header: "data (gpst_store_header p) = data p"
  by (simp add: gpst_store_header_def Let_def)

text \<open>
  Claim C1 (frame round trip). For a packet holding a payload of at most 65535 bytes, the
  bytes written after the header is stored (lines 330-335) are the 16-byte header (magic
  \<open>1a 2b 3c 4d\<close>, EtherType \<open>08 00\<close>, the length big-endian, then
  \<open>01 00 00 00 00 00 00 00\<close>) followed by the payload as it is. Read back, these bytes
  pass every check of the receive path (lines 238-268): the EtherType read is \<open>0x0800\<close>,
  and the packet queued has the original length and the original payload.
\<close>

theorem frame_roundtrip:
  assumes "length payload \<le> 65535" and "length h = 16"
  shows "gpst_wire (gpst_store_header \<lparr>len = int (length payload), hdr = h, data = payload\<rparr>)
         = gpst_header (word_of_int (int (length payload))) @ payload \<and>
         gpst_recv_frame
           (gpst_wire (gpst_store_header \<lparr>len = int (length payload), hdr = h, data = payload\<rparr>))
         = Inr (0x0800, \<lparr>len = int (length payload),
                         hdr = gpst_header (word_of_int (int (length payload))),
                         data = payload\<rparr>)"
proof -
  let ?n = "word_of_int (int (length payload)) :: 16 word"
  let ?p = "\<lparr>len = int (length payload), hdr = h, data = payload\<rparr>"
  have h: "hdr (gpst_store_header ?p) = gpst_header ?n"
    using assms(2) by (simp add: hdr_store_header)
  have w: "gpst_wire (gpst_store_header ?p) = gpst_header ?n @ payload"
    by (simp add: gpst_wire_def h len_store_header data_store_header length_gpst_header
        nat_add_distrib)
  have u: "uint (word_of_nat (length payload) :: 16 word) = int (length payload)"
    using assms(1) uint_len16 [of "int (length payload)"] by simp
  have "gpst_recv_frame (gpst_header ?n @ payload)
          = Inr (0x0800, \<lparr>len = int (length payload), hdr = gpst_header ?n, data = payload\<rparr>)"
    by (simp add: gpst_recv_frame_def load_gpst_header length_gpst_header u Let_def)
  with w show ?thesis by (simp only: simp_thms)
qed

theorem frame_roundtrip_witness:
  "gpst_recv_frame
     (gpst_wire (gpst_store_header
        \<lparr>len = 3, hdr = [9, 9, 9, 9, 9, 9, 9, 9, 9, 9, 9, 9, 9, 9, 9, 9], data = [0x45, 0, 7]\<rparr>))
   = Inr (0x0800,
          \<lparr>len = 3, hdr = [0x1a, 0x2b, 0x3c, 0x4d, 0x08, 0x00, 0, 3, 1, 0, 0, 0, 0, 0, 0, 0],
             data = [0x45, 0, 7]\<rparr>)"
  using frame_roundtrip [of "[0x45, 0, 7]" "[9, 9, 9, 9, 9, 9, 9, 9, 9, 9, 9, 9, 9, 9, 9, 9]",
      THEN conjunct2]
  by (simp add: gpst_header_def)

text \<open>
  Claim C2 (frame rejection). The checks of lines 238-268 run in the order short header,
  magic, EtherType, length, trailer, and the first that fails decides. Each error is
  reported exactly when its own condition holds and every earlier check has passed; the
  frame is accepted exactly when all five pass.
\<close>

theorem recv_frame_errors:
  "(gpst_recv_frame buf = Inl ShortHeader \<longleftrightarrow> length buf < 16) \<and>
   (gpst_recv_frame buf = Inl BadMagic \<longleftrightarrow>
      16 \<le> length buf \<and> load_be32 buf 0 \<noteq> 0x1a2b3c4d) \<and>
   (gpst_recv_frame buf = Inl BadEtherType \<longleftrightarrow>
      16 \<le> length buf \<and> load_be32 buf 0 = 0x1a2b3c4d \<and> load_be16 buf 4 \<noteq> 0x0800) \<and>
   (gpst_recv_frame buf = Inl LengthMismatch \<longleftrightarrow>
      16 \<le> length buf \<and> load_be32 buf 0 = 0x1a2b3c4d \<and> load_be16 buf 4 = 0x0800 \<and>
      int (length buf) \<noteq> 16 + uint (load_be16 buf 6)) \<and>
   (gpst_recv_frame buf = Inl BadTrailer \<longleftrightarrow>
      16 \<le> length buf \<and> load_be32 buf 0 = 0x1a2b3c4d \<and> load_be16 buf 4 = 0x0800 \<and>
      int (length buf) = 16 + uint (load_be16 buf 6) \<and>
      \<not> (load_le32 buf 8 = 1 \<and> load_le32 buf 12 = 0)) \<and>
   ((\<exists>r. gpst_recv_frame buf = Inr r) \<longleftrightarrow>
      16 \<le> length buf \<and> load_be32 buf 0 = 0x1a2b3c4d \<and> load_be16 buf 4 = 0x0800 \<and>
      int (length buf) = 16 + uint (load_be16 buf 6) \<and>
      load_le32 buf 8 = 1 \<and> load_le32 buf 12 = 0)"
  by (simp add: gpst_recv_frame_def Let_def)

text \<open>
  Claim C8 as stated has the encoder refuse a payload longer than 65535 bytes and never
  declare a length that is not the payload's. For a packet of 65536 bytes the header is
  stored all the same, and the length it declares (0) is not the packet's.
\<close>

theorem store_header_truncates:
  "uint (load_be16 (hdr (gpst_store_header
            \<lparr>len = 65536, hdr = [0, 0, 0, 0, 0, 0, 0, 0, 0, 0, 0, 0, 0, 0, 0, 0],
               data = replicate 65536 0\<rparr>)) 6)
     \<noteq> len (gpst_store_header
            \<lparr>len = 65536, hdr = [0, 0, 0, 0, 0, 0, 0, 0, 0, 0, 0, 0, 0, 0, 0, 0],
               data = replicate 65536 0\<rparr>)"
  by (simp add: declared_length len_store_header)

text \<open>
  Claim C8, amended (length field). Storing the header has no failure path and checks no
  length: the 16-bit field receives the packet length modulo 65536, so the declared length
  is the packet's own length exactly when that length is within 0..65535.
\<close>

theorem store_header_length_field:
  assumes "length (hdr p) = 16"
  shows "uint (load_be16 (hdr (gpst_store_header p)) 6) = len p mod 65536 \<and>
    (uint (load_be16 (hdr (gpst_store_header p)) 6) = len (gpst_store_header p)
       \<longleftrightarrow> 0 \<le> len p \<and> len p \<le> 65535)"
  using assms by (auto simp: declared_length len_store_header)

theorem store_header_length_field_witness:
  "uint (load_be16 (hdr (gpst_store_header
       \<lparr>len = 65537, hdr = [0, 0, 0, 0, 0, 0, 0, 0, 0, 0, 0, 0, 0, 0, 0, 0], data = []\<rparr>)) 6) = 1"
  using store_header_length_field
    [of "\<lparr>len = 65537, hdr = [0, 0, 0, 0, 0, 0, 0, 0, 0, 0, 0, 0, 0, 0, 0, 0], data = []\<rparr>"]
  by simp

section \<open>Cookie parsing\<close>

declare parse_cookie_cut.simps [simp del]

lemma split_on_not_Nil: "split_on sep s \<noteq> []"
  by (cases s) (simp_all split: list.splits)

lemma split_on_Nil: "split_on sep [] = [] # []"
  by simp

lemma split_on_Cons:
  "split_on sep (c # cs) =
     (if c = sep then [] # split_on sep cs
      else (c # hd (split_on sep cs)) # tl (split_on sep cs))"
  using split_on_not_Nil [of sep cs] by (cases "split_on sep cs") simp_all

lemma hd_split_on: "hd (split_on sep s) = takeWhile (\<lambda>c. c \<noteq> sep) s"
  by (induction s) (simp_all only: split_on_Nil split_on_Cons takeWhile.simps list.sel split: if_splits, simp_all)

lemma tl_split_on:
  "tl (split_on sep s) =
     (if dropWhile (\<lambda>c. c \<noteq> sep) s = [] then []
      else split_on sep (tl (dropWhile (\<lambda>c. c \<noteq> sep) s)))"
  by (induction s) (auto simp add: split_on_Cons simp del: split_on.simps(2))

lemma not_isspace_semicolon: "\<not> isspace CHR '';''"
  by (simp add: isspace_def)

lemma ltrim_takeWhile:
  "dropWhile isspace (takeWhile (\<lambda>c. c \<noteq> CHR '';'') r)
     = takeWhile (\<lambda>c. c \<noteq> CHR '';'') (dropWhile isspace r)"
  using not_isspace_semicolon by (induction r) auto

lemma ltrim_dropWhile:
  "dropWhile (\<lambda>c. c \<noteq> CHR '';'') (dropWhile isspace r) = dropWhile (\<lambda>c. c \<noteq> CHR '';'') r"
  using not_isspace_semicolon by (induction r) auto

lemma map_ltrim_split:
  "map (dropWhile isspace) (split_on CHR '';'' r) = cookie_fields (dropWhile isspace r)"
proof -
  have "map (dropWhile isspace) (split_on CHR '';'' r)
          = dropWhile isspace (hd (split_on CHR '';'' r))
              # map (dropWhile isspace) (tl (split_on CHR '';'' r))"
    using split_on_not_Nil [of "CHR '';''" r] by (cases "split_on CHR '';'' r") simp_all
  then show ?thesis
    by (simp only: cookie_fields_def hd_split_on tl_split_on ltrim_takeWhile ltrim_dropWhile)
qed

lemma cookie_fields_unfold:
  "cookie_fields p =
     takeWhile (\<lambda>c. c \<noteq> CHR '';'') p #
       (if dropWhile (\<lambda>c. c \<noteq> CHR '';'') p = [] then []
        else cookie_fields (dropWhile isspace (tl (dropWhile (\<lambda>c. c \<noteq> CHR '';'') p))))"
proof (cases "dropWhile (\<lambda>c. c \<noteq> CHR '';'') p = []")
  case True
  then show ?thesis
    by (simp only: cookie_fields_def [of p] hd_split_on tl_split_on simp_thms if_True list.map)
next
  case False
  then show ?thesis
    by (simp only: cookie_fields_def [of p] hd_split_on tl_split_on if_False map_ltrim_split)
qed

lemma cookie_fields_not_Nil: "cookie_fields p \<noteq> []"
  by (simp add: cookie_fields_def)

lemma drop_empty_last_Cons:
  "fs \<noteq> [] \<Longrightarrow> drop_empty_last (f # fs) = f # drop_empty_last fs"
  by (simp add: drop_empty_last_def)

lemma takeWhile_eq_self_iff: "dropWhile P p = [] \<Longrightarrow> takeWhile P p = p"
  by (metis takeWhile_dropWhile_id append_Nil2)

lemma parse_cookie_loop_step:
  assumes "p \<noteq> []"
  shows "parse_cookie_loop p store =
     (if CHR ''='' \<notin> set (takeWhile (\<lambda>c. c \<noteq> CHR '';'') p) then Inl (MalformedCookie, store)
      else if dropWhile (\<lambda>c. c \<noteq> CHR '';'') p = []
        then Inr (http_add_cookie store
                    (field_key (takeWhile (\<lambda>c. c \<noteq> CHR '';'') p))
                    (field_value (takeWhile (\<lambda>c. c \<noteq> CHR '';'') p)))
      else parse_cookie_loop
             (dropWhile isspace (tl (dropWhile (\<lambda>c. c \<noteq> CHR '';'') p)))
             (http_add_cookie store
                (field_key (takeWhile (\<lambda>c. c \<noteq> CHR '';'') p))
                (field_value (takeWhile (\<lambda>c. c \<noteq> CHR '';'') p))))"
  by (subst parse_cookie_loop.simps) (simp only: assms if_False field_key_def field_value_def)





lemma visited_fields_unfold:
  "drop_empty_last (cookie_fields p) =
     (if p = [] then []
      else takeWhile (\<lambda>c. c \<noteq> CHR '';'') p #
        (if dropWhile (\<lambda>c. c \<noteq> CHR '';'') p = [] then []
         else drop_empty_last
                (cookie_fields (dropWhile isspace (tl (dropWhile (\<lambda>c. c \<noteq> CHR '';'') p))))))"
proof (cases "p = []")
  case True
  then show ?thesis
    by (simp add: cookie_fields_def split_on_Nil drop_empty_last_def)
next
  case ne: False
  let ?f = "takeWhile (\<lambda>c. c \<noteq> CHR '';'') p"
  let ?r = "dropWhile (\<lambda>c. c \<noteq> CHR '';'') p"
  show ?thesis
  proof (cases "?r = []")
    case True
    then have f: "?f = p" by (rule takeWhile_eq_self_iff)
    have "cookie_fields p = [p]"
      by (subst cookie_fields_unfold) (simp only: True f simp_thms if_True)
    then have "drop_empty_last (cookie_fields p) = [p]"
      using ne by (simp add: drop_empty_last_def)
    then show ?thesis
      by (simp only: ne True f if_True if_False simp_thms)
  next
    case False
    let ?p' = "dropWhile isspace (tl ?r)"
    have "cookie_fields p = ?f # cookie_fields ?p'"
      by (subst cookie_fields_unfold) (simp only: False if_False)
    then have "drop_empty_last (cookie_fields p) = ?f # drop_empty_last (cookie_fields ?p')"
      by (simp add: drop_empty_last_Cons cookie_fields_not_Nil)
    then show ?thesis
      by (simp only: ne False if_False simp_thms)
  qed
qed

lemma parse_cookie_loop_fields:
  "parse_cookie_loop p store = add_fields (drop_empty_last (cookie_fields p)) store"
proof (induction p store rule: parse_cookie_loop.induct)
  case (1 p store)
  let ?f = "takeWhile (\<lambda>c. c \<noteq> CHR '';'') p"
  let ?r = "dropWhile (\<lambda>c. c \<noteq> CHR '';'') p"
  let ?p' = "dropWhile isspace (tl ?r)"
  let ?store' = "http_add_cookie store (field_key ?f) (field_value ?f)"
  consider (empty) "p = []"
    | (noeq) "p \<noteq> []" "CHR ''='' \<notin> set ?f"
    | (last) "p \<noteq> []" "CHR ''='' \<in> set ?f" "?r = []"
    | (more) "p \<noteq> []" "CHR ''='' \<in> set ?f" "?r \<noteq> []"
    by blast
  then show ?case
  proof cases
    case empty
    then show ?thesis
      by (subst visited_fields_unfold) (simp add: parse_cookie_loop.simps)
  next
    case noeq
    have "parse_cookie_loop p store = Inl (MalformedCookie, store)"
      by (simp only: parse_cookie_loop_step [OF noeq(1)] noeq(2) if_True simp_thms)
    moreover have "add_fields (drop_empty_last (cookie_fields p)) store = Inl (MalformedCookie, store)"
      by (subst visited_fields_unfold)
        (simp only: noeq if_False if_True add_fields.simps simp_thms)
    ultimately show ?thesis by (simp only:)
  next
    case last
    have "parse_cookie_loop p store = Inr ?store'"
      by (simp only: parse_cookie_loop_step [OF last(1)] last(2,3) if_True if_False simp_thms)
    moreover have "add_fields (drop_empty_last (cookie_fields p)) store = Inr ?store'"
      by (subst visited_fields_unfold)
        (simp only: last if_False if_True add_fields.simps simp_thms)
    ultimately show ?thesis by (simp only:)
  next
    case more
    have "parse_cookie_loop p store = parse_cookie_loop ?p' ?store'"
      by (simp only: parse_cookie_loop_step [OF more(1)] more(2,3) if_False simp_thms)
    also have "\<dots> = add_fields (drop_empty_last (cookie_fields ?p')) ?store'"
      using "1.IH" [OF more(1) _ more(3)] more(2)
      by (simp only: field_key_def field_value_def simp_thms)
    also have "\<dots> = add_fields (drop_empty_last (cookie_fields p)) store"
      by (subst (2) visited_fields_unfold)
        (simp only: more if_False add_fields.simps simp_thms)
    finally show ?thesis .
  qed
qed

lemma add_fields_fails:
  "(\<exists>e s. add_fields fs store = Inl (e, s)) \<longleftrightarrow> (\<exists>f \<in> set fs. CHR ''='' \<notin> set f)"
  by (induction fs arbitrary: store) auto

lemma add_fields_error: "add_fields fs store = Inl (e, s) \<Longrightarrow> e = MalformedCookie"
  by (induction fs arbitrary: store) (auto split: if_splits)

lemma map_of_http_add_cookie:
  "map_of (http_add_cookie store k v) = map_of (store @ [(k, v)])"
  by (auto simp: http_add_cookie_def fun_eq_iff map_add_def split: option.splits)

lemma map_of_append_cong:
  "map_of a = map_of b \<Longrightarrow> map_of (a @ c) = map_of (b @ c)"
  by simp

lemma add_fields_first_wins:
  "add_fields fs store = Inr s \<Longrightarrow>
     map_of s = map_of (store @ map (\<lambda>f. (field_key f, field_value f)) fs)"
proof (induction fs arbitrary: store)
  case Nil
  then show ?case by simp
next
  case (Cons f fs)
  from Cons.prems have eq: "CHR ''='' \<in> set f"
    and r: "add_fields fs (http_add_cookie store (field_key f) (field_value f)) = Inr s"
    by (auto split: if_splits)
  have "map_of s = map_of (http_add_cookie store (field_key f) (field_value f)
                            @ map (\<lambda>f. (field_key f, field_value f)) fs)"
    by (rule Cons.IH [OF r])
  also have "\<dots> = map_of ((store @ [(field_key f, field_value f)])
                            @ map (\<lambda>f. (field_key f, field_value f)) fs)"
    by (rule map_of_append_cong) (rule map_of_http_add_cookie)
  finally show ?case by simp
qed


lemma parse_cookie_loop_Nil: "parse_cookie_loop [] store = Inr store"
  by (simp add: parse_cookie_loop.simps)

lemma fields_example:
  "drop_empty_last (cookie_fields ''USER=a; USER=c;AUTH=b=d; '')
             = [''USER=a'', ''USER=c'', ''AUTH=b=d'']"
  by (simp add: cookie_fields_def drop_empty_last_def isspace_def)

text \<open>
  Claim C7 as stated, with the fields being what a split on \<open>;\<close> gives: the text \<open>a=b;\<close>
  splits into \<open>a=b\<close> and an empty field, which has no \<open>=\<close>, so the parse the spec words
  fails. The loop stops at the end of the text instead and succeeds.
\<close>

theorem parse_cookie_trailing_field:
  "parse_cookie_loop ''a=b;'' [] = Inr [(''a'', ''b'')] \<and>
   spec_parse ''a=b;'' = Inl (MalformedCookie, [(''a'', ''b'')])"
  by (simp add: parse_cookie_loop_fields spec_parse_def cookie_fields_def
      drop_empty_last_def field_key_def field_value_def http_add_cookie_def)

text \<open>
  Claim C7, amended (cookie parsing). The loop of \<open>parse_cookie\<close> visits the fields that a
  split on \<open>;\<close> gives, each field after the first without its leading white space, except
  that a last field that is empty is not visited. Each field visited is split on its first
  \<open>=\<close> and added unless its key is already there. The parse fails exactly when a visited
  field has no \<open>=\<close>, always with \<open>MalformedCookie\<close>; empty input gives the empty store;
  on success every key maps to the value of its first occurrence.
\<close>

theorem parse_cookie_fields:
  "parse_cookie_loop raw store = add_fields (drop_empty_last (cookie_fields raw)) store \<and>
   ((\<exists>e s. parse_cookie_loop raw store = Inl (e, s)) \<longleftrightarrow>
      (\<exists>f \<in> set (drop_empty_last (cookie_fields raw)). CHR ''='' \<notin> set f)) \<and>
   (\<forall>e s. parse_cookie_loop raw store = Inl (e, s) \<longrightarrow> e = MalformedCookie) \<and>
   parse_cookie_loop [] [] = Inr [] \<and>
   (\<forall>s. parse_cookie_loop raw store = Inr s \<longrightarrow>
      map_of s = map_of (store @ map (\<lambda>f. (field_key f, field_value f))
                                     (drop_empty_last (cookie_fields raw))))"
proof (intro conjI allI impI)
  show "parse_cookie_loop raw store = add_fields (drop_empty_last (cookie_fields raw)) store"
    by (rule parse_cookie_loop_fields)
  show "(\<exists>e s. parse_cookie_loop raw store = Inl (e, s)) \<longleftrightarrow>
      (\<exists>f \<in> set (drop_empty_last (cookie_fields raw)). CHR ''='' \<notin> set f)"
    unfolding parse_cookie_loop_fields by (rule add_fields_fails)
  show "parse_cookie_loop [] [] = Inr []"
    by (rule parse_cookie_loop_Nil)
next
  fix e s assume "parse_cookie_loop raw store = Inl (e, s)"
  then show "e = MalformedCookie"
    unfolding parse_cookie_loop_fields by (rule add_fields_error)
next
  fix s assume "parse_cookie_loop raw store = Inr s"
  then show "map_of s = map_of (store @ map (\<lambda>f. (field_key f, field_value f))
                                     (drop_empty_last (cookie_fields raw)))"
    unfolding parse_cookie_loop_fields by (rule add_fields_first_wins)
qed

theorem parse_cookie_fields_witness:
  "parse_cookie_loop ''USER=a; USER=c;AUTH=b=d; '' [] = Inr [(''USER'', ''a''), (''AUTH'', ''b=d'')] \<and>
   drop_empty_last (cookie_fields ''USER=a; USER=c;AUTH=b=d; '') = [''USER=a'', ''USER=c'', ''AUTH=b=d''] \<and>
   map_of [(''USER'', ''a''), (''AUTH'', ''b=d'')]
     = map_of [(''USER'', ''a''), (''USER'', ''c''), (''AUTH'', ''b=d'')]"
proof -
  have r: "parse_cookie_loop ''USER=a; USER=c;AUTH=b=d; '' []
             = Inr [(''USER'', ''a''), (''AUTH'', ''b=d'')]"
    using parse_cookie_fields [of "''USER=a; USER=c;AUTH=b=d; ''" "[]"]
    by (simp add: fields_example field_key_def field_value_def http_add_cookie_def)
  show ?thesis
    using parse_cookie_fields [of "''USER=a; USER=c;AUTH=b=d; ''" "[]"] r
    by (simp add: fields_example field_key_def field_value_def)
qed

text \<open>
  The error return leaves the cookie text cut behind the failing field, and the cookies
  added before it in the store.
\<close>

lemma parse_cookie_cut_example:
  "parse_cookie (vpninfo0\<lparr>cookies := [], cookie := Some ''a=b; c; d=e''\<rparr>)
     = (Inl MalformedCookie,
        vpninfo0\<lparr>cookies := [(''a'', ''b'')], cookie := Some ''a=b; c''\<rparr>)"
  by (simp add: parse_cookie_def vpninfo0_def parse_cookie_loop.simps parse_cookie_cut.simps
        isspace_def http_add_cookie_def)

section \<open>Session negotiation\<close>











lemma scan_tunnel_path:
  "tunnel_path (gpst_scan_cookies cs l) =
     (case map_of (rev cs) ''TUNNEL'' of None \<Rightarrow> tunnel_path l | Some v \<Rightarrow> Some v)"
  by (induction cs l rule: gpst_scan_cookies.induct)
     (auto simp add: map_add_def split: option.splits)

lemma scan_username:
  "username (gpst_scan_cookies cs l) =
     (case map_of (rev cs) ''USER'' of None \<Rightarrow> username l | Some v \<Rightarrow> Some v)"
  by (induction cs l rule: gpst_scan_cookies.induct)
     (auto simp add: map_add_def split: option.splits)

lemma scan_authcookie:
  "authcookie (gpst_scan_cookies cs l) =
     (case map_of (rev cs) ''AUTH'' of None \<Rightarrow> authcookie l | Some v \<Rightarrow> Some v)"
  by (induction cs l rule: gpst_scan_cookies.induct)
     (auto simp add: map_add_def split: option.splits)

lemma scan_ipaddr:
  "ipaddr (gpst_scan_cookies cs l) =
     (case map_of (rev cs) ''IP'' of None \<Rightarrow> ipaddr l | Some v \<Rightarrow> Some v)"
  by (induction cs l rule: gpst_scan_cookies.induct)
     (auto simp add: map_add_def split: option.splits)

lemma scan_mtu:
  "mtu (gpst_scan_cookies cs l) =
     (case map_of (rev cs) ''MTU'' of None \<Rightarrow> mtu l | Some v \<Rightarrow> atoi v)"
  by (induction cs l rule: gpst_scan_cookies.induct)
     (auto simp add: map_add_def split: option.splits)

lemma absent_iff: "map_of (rev cs) k = None \<longleftrightarrow> k \<notin> fst ` set cs"
  by (simp add: map_of_eq_None_iff)



lemma session_params_facts:
  "(gpst_session_params store = Inl MissingCredentials \<longleftrightarrow>
      ''USER'' \<notin> fst ` set store \<or> ''AUTH'' \<notin> fst ` set store) \<and>
   (\<forall>e. gpst_session_params store = Inl e \<longrightarrow> e = MissingCredentials) \<and>
   (\<forall>sp. gpst_session_params store = Inr sp \<longrightarrow>
      map_of (rev store) ''USER'' = Some (sp_username sp) \<and>
      map_of (rev store) ''AUTH'' = Some (sp_authcookie sp) \<and>
      sp_tunnel_path sp =
        (case map_of (rev store) ''TUNNEL'' of None \<Rightarrow> ''/ssl-tunnel-connect.sslvpn'' | Some t \<Rightarrow> t) \<and>
      sp_ipaddr sp = (case map_of (rev store) ''IP'' of None \<Rightarrow> ''0.0.0.0'' | Some i \<Rightarrow> i) \<and>
      sp_mtu sp =
        (case map_of (rev store) ''MTU'' of None \<Rightarrow> 1500
         | Some m \<Rightarrow> if sint (atoi m) \<le> 0 then 1500 else atoi m))"
  unfolding gpst_session_params_def Let_def
  by (auto simp: scan_tunnel_path scan_username scan_authcookie scan_ipaddr scan_mtu
        cookie_vars0_def absent_iff [symmetric] split: option.splits)

lemma response_not_credentials: "gpst_response buf ret \<noteq> Inl MissingCredentials"
  by (simp add: gpst_response_def)

lemma handshake_not_credentials: "fst (gpst_handshake env v sp) \<noteq> Inl MissingCredentials"
  by (simp add: gpst_handshake_def Let_def response_not_credentials)

lemma gpst_ret_response:
  "gpst_ret (gpst_response buf ret) < 0 \<longleftrightarrow> gpst_response buf ret \<noteq> Inr ()"
  by (simp add: gpst_response_def gpst_ret_def EINVAL_def EPIPE_def)

lemma handshake_success:
  assumes "gpst_handshake env v sp = (Inr (), v', tr)"
  shows "v' = v\<lparr>ip_addr := Some (sp_ipaddr sp), ip_netmask := Some ''255.255.255.255'',
                  ip_mtu := sp_mtu sp\<rparr>"
    and "tr = [DisableIPv6, OpenHttps, SslWrite (gpst_request (urlencode env) sp), SslRead 256,
               MonitorFdNew, MonitorReadFd, MonitorExceptFd]"
  using assms
  by (auto simp: gpst_handshake_def Let_def gpst_ret_response split: if_splits sum.splits)

lemma handshake_response_error:
  assumes "gpst_handshake env v sp = (r, v', tr)" and "response_error r"
  shows "tr = [DisableIPv6, OpenHttps, SslWrite (gpst_request (urlencode env) sp), SslRead 256,
               CloseHttps]"
  using assms
  by (auto simp: gpst_handshake_def Let_def gpst_ret_response split: if_splits)

lemma handshake_interrupted:
  assumes "gpst_handshake env v sp = (Inl Interrupted, v', tr)"
  shows "tr = [DisableIPv6, OpenHttps, SslWrite (gpst_request (urlencode env) sp), SslRead 256]"
  using assms
  by (auto simp: gpst_handshake_def Let_def gpst_response_def split: if_splits)

lemma handshake_transport_error:
  assumes "gpst_handshake env v sp = (Inl (TransportError e), v', tr)"
  shows "tr = [DisableIPv6, OpenHttps]"
  using assms
  by (auto simp: gpst_handshake_def Let_def gpst_response_def split: if_splits)

lemma handshake_not_cookie_error:
  "fst (gpst_handshake env v sp) \<noteq> Inl MalformedCookie"
  by (simp add: gpst_handshake_def Let_def gpst_response_def)

lemma parse_cookie_loop_error:
  "parse_cookie_loop p store = Inl (e, s) \<Longrightarrow> e = MalformedCookie"
  unfolding parse_cookie_loop_fields by (rule add_fields_error)

lemma parse_cookie_error:
  assumes "parse_cookie v = (Inl e, v1)"
  shows "e = MalformedCookie"
proof (cases "cookie v")
  case None
  with assms show ?thesis by (simp add: parse_cookie_def)
next
  case (Some p)
  show ?thesis
  proof (cases "parse_cookie_loop p (cookies v)")
    case (Inl a)
    obtain e' s where a: "a = (e', s)" by (cases a)
    from assms Some Inl a have "e = e'" by (simp add: parse_cookie_def)
    with Inl a show ?thesis using parse_cookie_loop_error by blast
  next
    case (Inr b)
    with assms Some show ?thesis by (simp add: parse_cookie_def)
  qed
qed

lemma cookie_step_error:
  "gpst_cookie_step v = (Inl e, v1) \<Longrightarrow> e = MalformedCookie"
  using parse_cookie_error [of v e v1]
  by (simp add: gpst_cookie_step_def split: if_splits)

lemma connect_cases:
  obtains (cookie) v1 where "gpst_cookie_step v = (Inl MalformedCookie, v1)"
      "gpst_connect env v = (Inl MalformedCookie, v1, [])"
  | (creds) v1 where "gpst_cookie_step v = (Inr (), v1)"
      "gpst_session_params (cookies v1) = Inl MissingCredentials"
      "gpst_connect env v = (Inl MissingCredentials, v1, [])"
  | (handshake) v1 sp where "gpst_cookie_step v = (Inr (), v1)"
      "gpst_session_params (cookies v1) = Inr sp"
      "gpst_connect env v = gpst_handshake env v1 sp"
proof -
  obtain r v1 where st: "gpst_cookie_step v = (r, v1)" by (cases "gpst_cookie_step v")
  show thesis
  proof (cases r)
    case (Inl e)
    with st have "e = MalformedCookie" by (simp add: cookie_step_error)
    with st Inl show ?thesis by (intro cookie [of v1]) (simp_all add: gpst_connect_def)
  next
    case (Inr u)
    show ?thesis
    proof (cases "gpst_session_params (cookies v1)")
      case (Inl e)
      with session_params_facts [of "cookies v1"] have "e = MissingCredentials" by blast
      with st Inr Inl show ?thesis by (intro creds [of v1]) (simp_all add: gpst_connect_def)
    next
      case sp: (Inr sp)
      with st Inr show ?thesis by (intro handshake [of v1 sp]) (simp_all add: gpst_connect_def)
    qed
  qed
qed


lemmas connect_eval =
  gpst_connect_def gpst_cookie_step_def vpninfo0_def connect_env0_def gpst_session_params_def
  cookie_vars0_def gpst_handshake_def gpst_response_def strncmp_eq_def gpst_ret_def
  gpst_request_def EINTR_def EINVAL_def EPIPE_def Let_def

lemmas atoi_eval = atoi_def strtol_def isspace_def isdigit_def LONG_MAX_def LONG_MIN_def

lemma atoi_examples:
  "atoi ''1400'' = 1400" "atoi ''-5'' = - 5" "atoi '' +7x'' = 7" "atoi ''x'' = 0"
  "atoi ''2147483647'' = 2147483647" "sint (atoi ''2147483648'') = - 2147483648"
  "atoi ''4294967297'' = 1" "atoi ''-4294967295'' = 1"
  "atoi ''99999999999999999999'' = - 1" "atoi ''-99999999999999999999'' = 0"
  by (simp_all add: atoi_eval)

text \<open>
  Outside the range of \<open>int\<close> the value wraps: 2147483648 is read as a negative number
  and replaced by 1500, 4294967297 is read as 1.
\<close>

lemma session_mtu_out_of_range:
  "ip_mtu (fst (snd (gpst_connect (connect_env0 (ReadBytes ''START_TUNNEL'') [])
      (vpninfo_mtu ''2147483648'')))) = 1500"
  "ip_mtu (fst (snd (gpst_connect (connect_env0 (ReadBytes ''START_TUNNEL'') [])
      (vpninfo_mtu ''4294967297'')))) = 1"
  by (simp_all add: connect_eval vpninfo_mtu_def atoi_eval)







text \<open>
  Claim C5 as stated has every failure close the transport. A handshake read that is
  interrupted makes \<open>gpst_connect\<close> fail with \<open>-EINTR\<close> (line 171) and
  \<open>openconnect_close_https\<close> is not among the calls made.
\<close>

theorem connect_interrupted_keeps_transport:
  "gpst_ret (fst (gpst_connect (connect_env0 (ReadError 4) []) vpninfo0)) < 0 \<and>
   CloseHttps \<notin> set (snd (snd (gpst_connect (connect_env0 (ReadError 4) []) vpninfo0)))"
  by (simp add: connect_eval)

text \<open>
  Claim C5, amended (transport disposition). A failure that the dispatch on the response
  produces (HTTP error, peer closed, unexpected response) closes the transport as the last
  call before returning. An interrupted read returns at once, the transport left open. A
  failure before the transport is opened (malformed cookie, missing credentials) makes no
  call at all, and a failed open is followed by no other call. On success the last calls
  are \<open>monitor_fd_new\<close>, \<open>monitor_read_fd\<close> and \<open>monitor_except_fd\<close>: the descriptor is
  registered for reading and for exceptions, not for writing.
\<close>

theorem connect_transport_disposition:
  assumes "gpst_connect env v = (r, v', tr)"
  shows
  "(response_error r \<longrightarrow>
      (\<exists>req. tr = [DisableIPv6, OpenHttps, SslWrite req, SslRead 256, CloseHttps])) \<and>
   (r = Inl Interrupted \<longrightarrow>
      (\<exists>req. tr = [DisableIPv6, OpenHttps, SslWrite req, SslRead 256])) \<and>
   (r = Inl MalformedCookie \<longrightarrow> tr = []) \<and>
   (r = Inl MissingCredentials \<longrightarrow> tr = []) \<and>
   (\<forall>e. r = Inl (TransportError e) \<longrightarrow> tr = [DisableIPv6, OpenHttps]) \<and>
   (r = Inr () \<longrightarrow>
      (\<exists>req. tr = [DisableIPv6, OpenHttps, SslWrite req, SslRead 256,
                    MonitorFdNew, MonitorReadFd, MonitorExceptFd]))"
proof (cases rule: connect_cases [of v env])
  case (cookie v1)
  with assms show ?thesis by auto
next
  case (creds v1)
  with assms show ?thesis by auto
next
  case (handshake v1 sp)
  with assms have h: "gpst_handshake env v1 sp = (r, v', tr)" by simp
  have 1: "response_error r \<longrightarrow>
      (\<exists>req. tr = [DisableIPv6, OpenHttps, SslWrite req, SslRead 256, CloseHttps])"
    using handshake_response_error [OF h] by blast
  have 2: "r = Inl Interrupted \<longrightarrow>
      (\<exists>req. tr = [DisableIPv6, OpenHttps, SslWrite req, SslRead 256])"
    using handshake_interrupted [of env v1 sp v' tr] h by blast
  have 3: "r \<noteq> Inl MalformedCookie"
    using handshake_not_cookie_error [of env v1 sp] h by auto
  have 4: "r \<noteq> Inl MissingCredentials"
    using handshake_not_credentials [of env v1 sp] h by auto
  have 5: "\<forall>e. r = Inl (TransportError e) \<longrightarrow> tr = [DisableIPv6, OpenHttps]"
    using handshake_transport_error [of env v1 sp _ v' tr] h by blast
  have 6: "r = Inr () \<longrightarrow>
      (\<exists>req. tr = [DisableIPv6, OpenHttps, SslWrite req, SslRead 256,
                    MonitorFdNew, MonitorReadFd, MonitorExceptFd])"
    using handshake_success(2) [of env v1 sp v' tr] h by blast
  from 1 2 3 4 5 6 show ?thesis by blast
qed

theorem connect_transport_disposition_witness:
  "gpst_connect (connect_env0 (ReadBytes ''HTTP/1.1 403 Forbidden'') []) vpninfo0
     = (Inl (GatewayHttpError ''HTTP/1.1 403 Forbidden''), vpninfo0,
        [DisableIPv6, OpenHttps,
         SslWrite (gpst_request (\<lambda>s. s)
           \<lparr>sp_username = ''u'', sp_authcookie = ''t'',
              sp_tunnel_path = ''/ssl-tunnel-connect.sslvpn'', sp_ipaddr = ''0.0.0.0'',
              sp_mtu = 1500\<rparr>),
         SslRead 256, CloseHttps]) \<and>
   (\<exists>req. snd (snd (gpst_connect (connect_env0 (ReadBytes ''HTTP/1.1 403 Forbidden'') []) vpninfo0))
      = [DisableIPv6, OpenHttps, SslWrite req, SslRead 256, CloseHttps])"
proof -
  have e: "gpst_connect (connect_env0 (ReadBytes ''HTTP/1.1 403 Forbidden'') []) vpninfo0
     = (Inl (GatewayHttpError ''HTTP/1.1 403 Forbidden''), vpninfo0,
        [DisableIPv6, OpenHttps,
         SslWrite (gpst_request (\<lambda>s. s)
           \<lparr>sp_username = ''u'', sp_authcookie = ''t'',
              sp_tunnel_path = ''/ssl-tunnel-connect.sslvpn'', sp_ipaddr = ''0.0.0.0'',
              sp_mtu = 1500\<rparr>),
         SslRead 256, CloseHttps])"
    by (simp add: connect_eval)
  show ?thesis
    using connect_transport_disposition [OF e] e by simp
qed

text \<open>
  The dispatch on the response where the bytes received decide it: a response of at least
  12 bytes (5 for an HTTP status line) fixes both comparisons, and an interrupted read
  never reaches them. A response shorter than that, the empty one included, leaves the
  comparisons to the bytes the array held before.
\<close>

lemma take_takeWhile_full:
  assumes "length (take n (takeWhile P a)) = n"
  shows "take n (takeWhile P a) = take n a"
proof -
  from assms have le: "n \<le> length (takeWhile P a)" by simp
  have "take n (takeWhile P a @ dropWhile P a)
          = take n (takeWhile P a) @ take (n - length (takeWhile P a)) (dropWhile P a)"
    by (rule take_append)
  also have "\<dots> = take n (takeWhile P a)" using le by simp
  finally show ?thesis by (simp only: takeWhile_dropWhile_id)
qed

lemma strncmp_literal:
  assumes "CHR 0x00 \<notin> set lit" and "length lit = n" and "n \<le> length resp"
  shows "strncmp_eq (resp @ rest) lit n \<longleftrightarrow> take n resp = lit"
proof -
  have tw: "takeWhile (\<lambda>c. c \<noteq> CHR 0x00) lit = lit"
    using assms(1) by (auto simp: takeWhile_eq_all_conv)
  have lit: "take n (takeWhile (\<lambda>c. c \<noteq> CHR 0x00) lit) = lit"
    unfolding tw using assms(2) by simp
  show ?thesis
  proof
    assume "strncmp_eq (resp @ rest) lit n"
    then have e: "take n (takeWhile (\<lambda>c. c \<noteq> CHR 0x00) (resp @ rest)) = lit"
      by (simp add: strncmp_eq_def lit)
    then have "length (take n (takeWhile (\<lambda>c. c \<noteq> CHR 0x00) (resp @ rest))) = n"
      using assms(2) by simp
    from take_takeWhile_full [OF this] e have "take n (resp @ rest) = lit" by simp
    with assms(3) show "take n resp = lit" by simp
  next
    assume t: "take n resp = lit"
    have "lit @ (drop n resp @ rest) = resp @ rest"
      unfolding t [symmetric] by simp
    moreover have "takeWhile (\<lambda>c. c \<noteq> CHR 0x00) (lit @ (drop n resp @ rest))
                 = lit @ takeWhile (\<lambda>c. c \<noteq> CHR 0x00) (drop n resp @ rest)"
      using assms(1) by (intro takeWhile_append2) auto
    ultimately have "takeWhile (\<lambda>c. c \<noteq> CHR 0x00) (resp @ rest)
                 = lit @ takeWhile (\<lambda>c. c \<noteq> CHR 0x00) (drop n resp @ rest)"
      by (simp only:)
    then show "strncmp_eq (resp @ rest) lit n"
      using assms(2) by (simp add: strncmp_eq_def lit)
  qed
qed

lemma response_determined:
  fixes stale resp :: string
  assumes "length resp \<le> 256"
  defines "buf \<equiv> read_into stale (ReadBytes resp) 256"
    and "ret \<equiv> read_ret (ReadBytes resp) 256"
  shows "take 12 resp = ''START_TUNNEL'' \<Longrightarrow> gpst_response buf ret = Inr ()"
    and "take 5 resp = ''HTTP/'' \<Longrightarrow> gpst_response buf ret = Inl (GatewayHttpError resp)"
    and "12 \<le> length resp \<Longrightarrow> take 12 resp \<noteq> ''START_TUNNEL'' \<Longrightarrow> take 5 resp \<noteq> ''HTTP/''
           \<Longrightarrow> gpst_response buf ret = Inl (UnexpectedResponse resp)"
proof -
  have b: "buf = resp @ drop (length resp) stale" and r: "ret = int (length resp)"
    using assms(1) by (simp_all add: buf_def ret_def)
  have tk: "take (nat ret) buf = resp" by (simp add: b r)
  {
    assume s: "take 12 resp = ''START_TUNNEL''"
    then have "length (take 12 resp) = 12" by simp
    then have "12 \<le> length resp" by simp
    with s have "strncmp_eq buf ''START_TUNNEL'' 12"
      unfolding b by (subst strncmp_literal) simp_all
    then show "gpst_response buf ret = Inr ()" by (simp add: gpst_response_def)
  }
  {
    assume h: "take 5 resp = ''HTTP/''"
    then have "length (take 5 resp) = 5" by simp
    then have l: "5 \<le> length resp" by simp
    with h have "strncmp_eq buf ''HTTP/'' 5"
      unfolding b by (subst strncmp_literal) simp_all
    moreover have "\<not> strncmp_eq buf ''START_TUNNEL'' 12"
    proof
      assume "strncmp_eq buf ''START_TUNNEL'' 12"
      then have "take 12 (takeWhile (\<lambda>c. c \<noteq> CHR 0x00) buf) = ''START_TUNNEL''"
        by (simp add: strncmp_eq_def)
      then have "take 5 (take 12 (takeWhile (\<lambda>c. c \<noteq> CHR 0x00) buf)) = ''START''"
        by simp
      then have e: "take 5 (takeWhile (\<lambda>c. c \<noteq> CHR 0x00) buf) = ''START''"
        by simp
      then have "length (take 5 (takeWhile (\<lambda>c. c \<noteq> CHR 0x00) buf)) = 5" by simp
      from take_takeWhile_full [OF this] e have "take 5 buf = ''START''" by simp
      with l h show False by (simp add: b)
    qed
    ultimately show "gpst_response buf ret = Inl (GatewayHttpError resp)"
      by (simp add: gpst_response_def tk)
  }
  {
    assume "12 \<le> length resp" "take 12 resp \<noteq> ''START_TUNNEL''" "take 5 resp \<noteq> ''HTTP/''"
    then have "\<not> strncmp_eq buf ''START_TUNNEL'' 12" "\<not> strncmp_eq buf ''HTTP/'' 5" "ret \<noteq> 0"
      unfolding b r by (auto simp add: strncmp_literal)
    then show "gpst_response buf ret = Inl (UnexpectedResponse resp)"
      by (simp add: gpst_response_def tk)
  }
qed


lemma handshake_determined:
  fixes resp :: string
  assumes "open_https_ret env = 0" and "handshake_read env = ReadBytes resp"
    and "length resp \<le> 256"
  shows "take 12 resp = ''START_TUNNEL'' \<Longrightarrow> fst (gpst_handshake env v sp) = Inr ()"
    and "take 5 resp = ''HTTP/'' \<Longrightarrow>
           fst (gpst_handshake env v sp) = Inl (GatewayHttpError resp)"
    and "12 \<le> length resp \<Longrightarrow> take 12 resp \<noteq> ''START_TUNNEL'' \<Longrightarrow> take 5 resp \<noteq> ''HTTP/''
           \<Longrightarrow> fst (gpst_handshake env v sp) = Inl (UnexpectedResponse resp)"
  using assms response_determined [OF assms(3), of "stack_buf env"]
  by (simp_all add: gpst_handshake_def Let_def)

lemma handshake_interrupted_verbatim:
  assumes "open_https_ret env = 0" and "handshake_read env = ReadError 4"
  shows "fst (gpst_handshake env v sp) = Inl Interrupted"
    and "gpst_ret (fst (gpst_handshake env v sp)) = - EINTR"
  using assms by (simp_all add: gpst_handshake_def Let_def gpst_ret_def EINTR_def)

lemma handshake_peer_closed:
  assumes "open_https_ret env = 0" and "handshake_read env = ReadBytes []"
    and "\<not> strncmp_eq (stack_buf env) ''START_TUNNEL'' 12"
    and "\<not> strncmp_eq (stack_buf env) ''HTTP/'' 5"
  shows "fst (gpst_handshake env v sp) = Inl PeerClosed"
  using assms by (simp add: gpst_handshake_def Let_def gpst_response_def)

text \<open>
  Claim C4 (handshake dispatch) at a read of zero bytes. The array \<open>buf\<close> is not
  initialised and the comparison with \<open>START_TUNNEL\<close> (line 177) comes before the test
  \<open>ret == 0\<close> (line 187): when the array still holds \<open>START_TUNNEL\<close>, the read of zero
  bytes is taken for a started tunnel, where the claim has the run fail with \<open>PeerClosed\<close>.
\<close>

theorem handshake_stale_start_tunnel:
  "read_ret (ReadBytes ([] :: string)) 256 = 0 \<and>
   fst (gpst_connect
          (connect_env0 (ReadBytes []) (''START_TUNNEL'' @ replicate 244 (CHR 0x00))) vpninfo0)
     = Inr () \<and>
   snd (snd (gpst_connect
          (connect_env0 (ReadBytes []) (''START_TUNNEL'' @ replicate 244 (CHR 0x00))) vpninfo0))
     = [DisableIPv6, OpenHttps,
        SslWrite (gpst_request (\<lambda>s. s)
           \<lparr>sp_username = ''u'', sp_authcookie = ''t'',
              sp_tunnel_path = ''/ssl-tunnel-connect.sslvpn'', sp_ipaddr = ''0.0.0.0'',
              sp_mtu = 1500\<rparr>),
        SslRead 256, MonitorFdNew, MonitorReadFd, MonitorExceptFd]"
  by (simp add: connect_eval)

section \<open>The main loop\<close>

declare gpst_outgoing.simps [simp del]

lemma handle_outgoing_Sent:
  "fst (handle_outgoing t ret v p) = Sent \<longleftrightarrow> 0 < ret \<and> ret = len p + 16"
  by (auto simp: handle_outgoing_def Let_def)

lemma handle_outgoing_state:
  "snd (handle_outgoing t ret v p) =
     (if ret < 0 \<or> ret = 0 then v\<lparr>last_tx := t\<rparr>
      else if ret \<noteq> len p + 16 then v\<lparr>last_tx := t, quit_reason := Some ''Internal error''\<rparr>
      else v\<lparr>last_tx := t, current_ssl_pkt := None\<rparr>)"
  by (simp add: handle_outgoing_def Let_def)

lemma handle_outgoing_cases:
  obtains (error) "ret < 0" "handle_outgoing t ret v p = (WriteError, v\<lparr>last_tx := t\<rparr>)"
  | (blocked) "ret = 0" "handle_outgoing t ret v p = (Blocked, v\<lparr>last_tx := t\<rparr>)"
  | (short) "0 < ret" "ret \<noteq> len p + 16"
      "handle_outgoing t ret v p =
         (ShortWrite, v\<lparr>last_tx := t, quit_reason := Some ''Internal error''\<rparr>)"
  | (sent) "0 < ret" "ret = len p + 16"
      "handle_outgoing t ret v p = (Sent, v\<lparr>last_tx := t, current_ssl_pkt := None\<rparr>)"
proof -
  consider "ret < 0" | "ret = 0" | "0 < ret" "ret \<noteq> len p + 16" | "0 < ret" "ret = len p + 16"
    by linarith
  then show thesis
  proof cases
    case 1 then show ?thesis by (intro error) (simp_all add: handle_outgoing_def)
  next
    case 2 then show ?thesis by (intro blocked) (simp_all add: handle_outgoing_def)
  next
    case 3 then show ?thesis by (intro short) (simp_all add: handle_outgoing_def)
  next
    case 4 then show ?thesis by (intro sent) (simp_all add: handle_outgoing_def)
  qed
qed

lemma outgoing_unfold_Some:
  assumes "current_ssl_pkt v = Some p"
  shows "gpst_outgoing t rc ws v wd sent =
     (if fst (handle_outgoing t (write_ret ws) v p) = Sent
      then gpst_outgoing t rc (tl ws) (snd (handle_outgoing t (write_ret ws) v p)) wd
             (sent @ [gpst_wire p])
      else
        (case handle_outgoing t (write_ret ws) v p of
           (WriteError, v1) \<Rightarrow>
             (fst (do_reconnect rc v1), snd (do_reconnect rc v1), sent @ [gpst_wire p])
         | (Blocked, v1) \<Rightarrow> (wd, v1, sent @ [gpst_wire p])
         | (ex, v1) \<Rightarrow> (1, v1, sent @ [gpst_wire p])))"
  by (subst gpst_outgoing.simps) (simp only: assms option.case)

lemma outgoing_sent:
  assumes "current_ssl_pkt v = Some p" and "fst (handle_outgoing t (write_ret ws) v p) = Sent"
  shows "gpst_outgoing t rc ws v wd sent =
           gpst_outgoing t rc (tl ws) (v\<lparr>last_tx := t, current_ssl_pkt := None\<rparr>) wd
             (sent @ [gpst_wire p])"
  using assms handle_outgoing_Sent [of t "write_ret ws" v p]
  by (simp add: outgoing_unfold_Some [OF assms(1)] handle_outgoing_state)

lemma outgoing_stop:
  assumes "current_ssl_pkt v = Some p" and "fst (handle_outgoing t (write_ret ws) v p) \<noteq> Sent"
  shows "\<exists>r q. gpst_outgoing t rc ws v wd sent =
           (r, v\<lparr>last_tx := t, quit_reason := q\<rparr>, sent @ [gpst_wire p])"
proof (cases rule: handle_outgoing_cases [of "write_ret ws" t v p])
  case error
  show ?thesis
  proof (cases "rc = 0")
    case True
    have "gpst_outgoing t rc ws v wd sent =
            (1, v\<lparr>last_tx := t, quit_reason := quit_reason v\<rparr>, sent @ [gpst_wire p])"
      by (simp add: outgoing_unfold_Some [OF assms(1)] error(2) do_reconnect_def True)
    then show ?thesis by blast
  next
    case False
    have "gpst_outgoing t rc ws v wd sent =
            (rc, v\<lparr>last_tx := t, quit_reason := Some ''GPST reconnect failed''\<rparr>,
             sent @ [gpst_wire p])"
      by (simp add: outgoing_unfold_Some [OF assms(1)] error(2) do_reconnect_def False)
    then show ?thesis by blast
  qed
next
  case blocked
  have "gpst_outgoing t rc ws v wd sent =
          (wd, v\<lparr>last_tx := t, quit_reason := quit_reason v\<rparr>, sent @ [gpst_wire p])"
    by (simp add: outgoing_unfold_Some [OF assms(1)] blocked(2))
  then show ?thesis by blast
next
  case short
  have "gpst_outgoing t rc ws v wd sent =
          (1, v\<lparr>last_tx := t, quit_reason := Some ''Internal error''\<rparr>, sent @ [gpst_wire p])"
    by (simp add: outgoing_unfold_Some [OF assms(1)] short(3))
  then show ?thesis by blast
next
  case sent
  with assms(2) show ?thesis by simp
qed

lemma outgoing_dequeue:
  assumes "current_ssl_pkt v = None" and "dtls_state v \<noteq> DTLS_CONNECTED"
    and "outgoing_queue v = this # q"
  shows "gpst_outgoing t rc ws v wd sent =
           gpst_outgoing t rc ws
             (v\<lparr>outgoing_queue := q, current_ssl_pkt := Some (gpst_store_header this)\<rparr>) wd sent"
  using assms by (subst gpst_outgoing.simps) simp

lemma outgoing_idle:
  assumes "current_ssl_pkt v = None" and "dtls_state v = DTLS_CONNECTED \<or> outgoing_queue v = []"
  shows "gpst_outgoing t rc ws v wd sent = (wd, v, sent)"
  using assms by (subst gpst_outgoing.simps) auto


lemma outgoing_induct [case_names idle stop sent dequeue]:
  assumes idle: "\<And>ws v sent. current_ssl_pkt v = None \<Longrightarrow>
      dtls_state v = DTLS_CONNECTED \<or> outgoing_queue v = [] \<Longrightarrow> P ws v sent"
    and stop: "\<And>ws v sent p. current_ssl_pkt v = Some p \<Longrightarrow>
      fst (handle_outgoing t (write_ret ws) v p) \<noteq> Sent \<Longrightarrow> P ws v sent"
    and sent: "\<And>ws v sent p. current_ssl_pkt v = Some p \<Longrightarrow>
      fst (handle_outgoing t (write_ret ws) v p) = Sent \<Longrightarrow>
      P (tl ws) (v\<lparr>last_tx := t, current_ssl_pkt := None\<rparr>) (sent @ [gpst_wire p]) \<Longrightarrow>
      P ws v sent"
    and dequeue: "\<And>ws v sent this q. current_ssl_pkt v = None \<Longrightarrow>
      dtls_state v \<noteq> DTLS_CONNECTED \<Longrightarrow> outgoing_queue v = this # q \<Longrightarrow>
      P ws (v\<lparr>outgoing_queue := q, current_ssl_pkt := Some (gpst_store_header this)\<rparr>) sent \<Longrightarrow>
      P ws v sent"
  shows "P ws v sent"
proof (induction "2 * length (outgoing_queue v)
                    + (case current_ssl_pkt v of None \<Rightarrow> 0 | Some p \<Rightarrow> (1::nat))"
         arbitrary: ws v sent rule: less_induct)
  case less
  show ?case
  proof (cases "current_ssl_pkt v")
    case None
    show ?thesis
    proof (cases "dtls_state v = DTLS_CONNECTED \<or> outgoing_queue v = []")
      case True
      with None show ?thesis by (rule idle)
    next
      case False
      then obtain this q where q: "outgoing_queue v = this # q"
        by (cases "outgoing_queue v") auto
      from None False q show ?thesis
        by (intro dequeue [of v this q] less) simp_all
    qed
  next
    case (Some p)
    show ?thesis
    proof (cases "fst (handle_outgoing t (write_ret ws) v p) = Sent")
      case True
      with Some show ?thesis
        by (intro sent [of v p] less) simp_all
    next
      case False
      with Some show ?thesis by (rule stop)
    qed
  qed
qed

lemma outgoing_trace:
  "\<exists>ext. snd (snd (gpst_outgoing t rc ws v wd sent)) = sent @ ext \<and>
          prefix ext (map gpst_wire (pending v)) \<and>
          (ext = [] \<longrightarrow> current_ssl_pkt v = None) \<and>
          last_tx (fst (snd (gpst_outgoing t rc ws v wd sent)))
            = (if ext = [] then last_tx v else t)"
proof (induction ws v sent rule: outgoing_induct [where t = t])
  case (idle ws v sent)
  then show ?case by (simp add: outgoing_idle)
next
  case (stop ws v sent p)
  from outgoing_stop [OF stop, of rc wd sent]
  obtain r q where "gpst_outgoing t rc ws v wd sent =
      (r, v\<lparr>last_tx := t, quit_reason := q\<rparr>, sent @ [gpst_wire p])"
    by blast
  with stop(1) show ?case
    by (intro exI [of _ "[gpst_wire p]"]) (simp add: pending_def)
next
  case (sent ws v sent p)
  let ?v2 = "v\<lparr>last_tx := t, current_ssl_pkt := None\<rparr>"
  from sent(3) obtain ext where
    e: "snd (snd (gpst_outgoing t rc (tl ws) ?v2 wd (sent @ [gpst_wire p])))
          = (sent @ [gpst_wire p]) @ ext"
    and p: "prefix ext (map gpst_wire (pending ?v2))"
    and l: "last_tx (fst (snd (gpst_outgoing t rc (tl ws) ?v2 wd (sent @ [gpst_wire p]))))
          = (if ext = [] then last_tx ?v2 else t)"
    by blast
  have pv: "pending v = p # pending ?v2"
    using sent(1) by (simp add: pending_def)
  show ?case
    using e p l
    by (intro exI [of _ "gpst_wire p # ext"])
      (simp add: outgoing_sent [OF sent(1,2)] pv)
next
  case (dequeue ws v sent this q)
  let ?v2 = "v\<lparr>outgoing_queue := q, current_ssl_pkt := Some (gpst_store_header this)\<rparr>"
  from dequeue(4) obtain ext where
    e: "snd (snd (gpst_outgoing t rc ws ?v2 wd sent)) = sent @ ext"
    and p: "prefix ext (map gpst_wire (pending ?v2))"
    and n: "ext = [] \<longrightarrow> current_ssl_pkt ?v2 = None"
    and l: "last_tx (fst (snd (gpst_outgoing t rc ws ?v2 wd sent)))
          = (if ext = [] then last_tx ?v2 else t)"
    by blast
  have pv: "pending v = pending ?v2"
    using dequeue(1,2,3) by (simp add: pending_def)
  show ?case
    using e p l n dequeue(1)
    by (intro exI [of _ ext]) (simp add: outgoing_dequeue [OF dequeue(1,2,3)] pv)
qed

lemma outgoing_slot:
  "current_ssl_pkt (fst (snd (gpst_outgoing t rc ws v wd sent))) = Some q \<Longrightarrow>
     current_ssl_pkt v = Some q \<or> q \<in> gpst_store_header ` set (outgoing_queue v)"
proof (induction ws v sent rule: outgoing_induct [where t = t])
  case (idle ws v sent)
  then show ?case by (simp add: outgoing_idle)
next
  case (stop ws v sent p)
  from outgoing_stop [OF stop(1,2), of rc wd sent]
  obtain r q' where "gpst_outgoing t rc ws v wd sent =
      (r, v\<lparr>last_tx := t, quit_reason := q'\<rparr>, sent @ [gpst_wire p])"
    by blast
  with stop show ?case by simp
next
  case (sent ws v sent p)
  then show ?case by (simp add: outgoing_sent [OF sent(1,2)])
next
  case (dequeue ws v sent this q')
  then show ?case by (auto simp: outgoing_dequeue [OF dequeue(1,2,3)])
qed

lemma outgoing_incomplete:
  assumes "current_ssl_pkt v = Some p"
    and "\<not> (0 < write_ret ws \<and> write_ret ws = len p + 16)"
  shows "snd (snd (gpst_outgoing t rc ws v wd sent)) = sent @ [gpst_wire p]"
    and "current_ssl_pkt (fst (snd (gpst_outgoing t rc ws v wd sent))) = Some p"
    and "outgoing_queue (fst (snd (gpst_outgoing t rc ws v wd sent))) = outgoing_queue v"
proof -
  from assms(2) have "fst (handle_outgoing t (write_ret ws) v p) \<noteq> Sent"
    by (simp add: handle_outgoing_Sent)
  from outgoing_stop [OF assms(1) this, of rc wd sent]
  obtain r q where g: "gpst_outgoing t rc ws v wd sent =
      (r, v\<lparr>last_tx := t, quit_reason := q\<rparr>, sent @ [gpst_wire p])"
    by blast
  show "snd (snd (gpst_outgoing t rc ws v wd sent)) = sent @ [gpst_wire p]"
    and "current_ssl_pkt (fst (snd (gpst_outgoing t rc ws v wd sent))) = Some p"
    and "outgoing_queue (fst (snd (gpst_outgoing t rc ws v wd sent))) = outgoing_queue v"
    using assms(1) by (simp_all add: g)
qed

lemma outgoing_dtls_connected:
  assumes "dtls_state v = DTLS_CONNECTED"
  shows "snd (snd (gpst_outgoing t rc ws v wd sent))
           = sent @ (case current_ssl_pkt v of None \<Rightarrow> [] | Some p \<Rightarrow> [gpst_wire p])"
    and "outgoing_queue (fst (snd (gpst_outgoing t rc ws v wd sent))) = outgoing_queue v"
proof -
  have "snd (snd (gpst_outgoing t rc ws v wd sent))
           = sent @ (case current_ssl_pkt v of None \<Rightarrow> [] | Some p \<Rightarrow> [gpst_wire p]) \<and>
        outgoing_queue (fst (snd (gpst_outgoing t rc ws v wd sent))) = outgoing_queue v"
  proof (cases "current_ssl_pkt v")
    case None
    with assms show ?thesis by (simp add: outgoing_idle)
  next
    case (Some p)
    show ?thesis
    proof (cases "fst (handle_outgoing t (write_ret ws) v p) = Sent")
      case True
      let ?v2 = "v\<lparr>last_tx := t, current_ssl_pkt := None\<rparr>"
      have "gpst_outgoing t rc (tl ws) ?v2 wd (sent @ [gpst_wire p])
              = (wd, ?v2, sent @ [gpst_wire p])"
        using assms by (intro outgoing_idle) simp_all
      with Some show ?thesis by (simp add: outgoing_sent [OF Some True])
    next
      case False
      from outgoing_stop [OF Some False, of rc wd sent]
      obtain r q where "gpst_outgoing t rc ws v wd sent =
          (r, v\<lparr>last_tx := t, quit_reason := q\<rparr>, sent @ [gpst_wire p])"
        by blast
      with Some show ?thesis by simp
    qed
  qed
  then show "snd (snd (gpst_outgoing t rc ws v wd sent))
           = sent @ (case current_ssl_pkt v of None \<Rightarrow> [] | Some p \<Rightarrow> [gpst_wire p])"
    and "outgoing_queue (fst (snd (gpst_outgoing t rc ws v wd sent))) = outgoing_queue v"
    by simp_all
qed


lemma read_loop_keeps:
  "gpst_read_loop t rs v wd = (ex, v1, wd1) \<Longrightarrow>
     current_ssl_pkt v1 = current_ssl_pkt v \<and> outgoing_queue v1 = outgoing_queue v \<and>
     dtls_state v1 = dtls_state v \<and> last_tx v1 = last_tx v"
proof (induction rs arbitrary: v wd)
  case Nil
  then show ?case by simp
next
  case (Cons r rs)
  show ?case
  proof (cases "read_ret r 65552 = 0 \<or> read_ret r 65552 < 0")
    case True
    with Cons.prems show ?thesis by (auto split: if_splits)
  next
    case False
    show ?thesis
    proof (cases "gpst_recv_frame (read_into [] r 65552)")
      case (Inl e)
      with False Cons.prems show ?thesis by (cases e) auto
    next
      case (Inr a)
      obtain et p where a: "a = (et, p)" by (cases a)
      from Cons.prems False Inr a
      have "gpst_read_loop t rs (v\<lparr>last_rx := t, incoming_queue := incoming_queue v @ [p]\<rparr>) 1
              = (ex, v1, wd1)"
        by simp
      from Cons.IH [OF this] show ?thesis by simp
    qed
  qed
qed

lemma read_loop_dtls:
  "gpst_read_loop t rs (v\<lparr>dtls_state := d\<rparr>) wd =
     (case gpst_read_loop t rs v wd of (ex, v1, wd1) \<Rightarrow> (ex, v1\<lparr>dtls_state := d\<rparr>, wd1))"
proof (induction rs arbitrary: v wd)
  case Nil
  then show ?case by simp
next
  case (Cons r rs)
  show ?case
  proof (cases "read_ret r 65552 = 0 \<or> read_ret r 65552 < 0")
    case True
    then show ?thesis by auto
  next
    case False
    show ?thesis
    proof (cases "gpst_recv_frame (read_into [] r 65552)")
      case (Inl e)
      with False show ?thesis by (cases e) auto
    next
      case (Inr a)
      obtain et p where a: "a = (et, p)" by (cases a)
      let ?v2 = "v\<lparr>last_rx := t, incoming_queue := incoming_queue v @ [p]\<rparr>"
      have eq: "(v\<lparr>dtls_state := d\<rparr>)\<lparr>last_rx := t,
                   incoming_queue := incoming_queue (v\<lparr>dtls_state := d\<rparr>) @ [p]\<rparr>
                 = ?v2\<lparr>dtls_state := d\<rparr>"
        by (cases v) simp
      have "gpst_read_loop t (r # rs) (v\<lparr>dtls_state := d\<rparr>) wd
              = gpst_read_loop t rs
                  ((v\<lparr>dtls_state := d\<rparr>)\<lparr>last_rx := t,
                     incoming_queue := incoming_queue (v\<lparr>dtls_state := d\<rparr>) @ [p]\<rparr>) 1"
        using False Inr a by (simp del: ext_inject surjective_pairing)
      also have "\<dots> = gpst_read_loop t rs (?v2\<lparr>dtls_state := d\<rparr>) 1"
        by (simp only: eq)
      also have "\<dots> = (case gpst_read_loop t rs ?v2 1 of
                          (ex, v1, wd1) \<Rightarrow> (ex, v1\<lparr>dtls_state := d\<rparr>, wd1))"
        by (rule Cons.IH)
      also have "\<dots> = (case gpst_read_loop t (r # rs) v wd of
                          (ex, v1, wd1) \<Rightarrow> (ex, v1\<lparr>dtls_state := d\<rparr>, wd1))"
        using False Inr a by simp
      finally show ?thesis .
    qed
  qed
qed

lemma do_reconnect_keeps:
  "current_ssl_pkt (snd (do_reconnect rc v)) = current_ssl_pkt v"
  "outgoing_queue (snd (do_reconnect rc v)) = outgoing_queue v"
  "last_tx (snd (do_reconnect rc v)) = last_tx v"
  by (simp_all add: do_reconnect_def)

lemma mainloop_cases:
  obtains (early) v1 where
      "current_ssl_pkt v1 = current_ssl_pkt v" "outgoing_queue v1 = outgoing_queue v"
      "last_tx v1 = last_tx v"
      "ssl_fd v = - 1 \<or> fst (gpst_read_loop (now env) (reads env) v 0) \<noteq> ReadDone"
      "fst (snd (gpst_mainloop env v)) = v1" "snd (snd (gpst_mainloop env v)) = []"
  | (reached) v1 wd where
      "current_ssl_pkt v1 = current_ssl_pkt v" "outgoing_queue v1 = outgoing_queue v"
      "dtls_state v1 = dtls_state v" "last_tx v1 = last_tx v"
      "ssl_fd v \<noteq> - 1" "gpst_read_loop (now env) (reads env) v 0 = (ReadDone, v1, wd)"
      "gpst_mainloop env v = gpst_outgoing (now env) (reconnect_ret env) (writes env) v1 wd []"
proof (cases "ssl_fd v = - 1")
  case True
  show ?thesis
    by (rule early [of "snd (do_reconnect (reconnect_ret env) v)"])
       (simp_all add: True gpst_mainloop_def do_reconnect_keeps)
next
  case False
  obtain ex v1 wd where r: "gpst_read_loop (now env) (reads env) v 0 = (ex, v1, wd)"
    by (cases "gpst_read_loop (now env) (reads env) v 0")
  note k = read_loop_keeps [OF r]
  show ?thesis
  proof (cases ex)
    case ReadDone
    show ?thesis
      by (rule reached [of v1 wd]) (use k False r ReadDone in \<open>simp_all add: gpst_mainloop_def\<close>)
  next
    case ReadReconnect
    show ?thesis
      by (rule early [of "snd (do_reconnect (reconnect_ret env) v1)"])
         (use k False r ReadReconnect in \<open>simp_all add: gpst_mainloop_def do_reconnect_keeps\<close>)
  next
    case ReadQuit
    show ?thesis
      by (rule early [of v1])
         (use k False r ReadQuit in \<open>simp_all add: gpst_mainloop_def\<close>)
  qed
qed

lemma mainloop_sent_prefix:
  assumes "current_ssl_pkt v = Some p"
  shows "prefix (snd (snd (gpst_mainloop env v)))
           (gpst_wire p # map (gpst_wire \<circ> gpst_store_header) (outgoing_queue v))"
proof (cases rule: mainloop_cases [of v env])
  case (early v1)
  then show ?thesis by simp
next
  case (reached v1 wd)
  from outgoing_trace [of "now env" "reconnect_ret env" "writes env" v1 wd "[]"]
  obtain ext where e: "snd (snd (gpst_mainloop env v)) = ext"
    and p: "prefix ext (map gpst_wire (pending v1))"
    using reached(7) by auto
  have "prefix (map gpst_wire (pending v1))
          (gpst_wire p # map (gpst_wire \<circ> gpst_store_header) (outgoing_queue v))"
    using reached(1,2) assms by (simp add: pending_def)
  with p e show ?thesis by (auto intro: prefix_order.trans)
qed

lemma mainloop_incomplete:
  assumes "current_ssl_pkt v = Some p"
    and "\<not> (0 < write_ret (writes env) \<and> write_ret (writes env) = len p + 16)"
  shows "current_ssl_pkt (fst (snd (gpst_mainloop env v))) = Some p"
    and "outgoing_queue (fst (snd (gpst_mainloop env v))) = outgoing_queue v"
    and "prefix (snd (snd (gpst_mainloop env v))) [gpst_wire p]"
proof -
  have "current_ssl_pkt (fst (snd (gpst_mainloop env v))) = Some p \<and>
        outgoing_queue (fst (snd (gpst_mainloop env v))) = outgoing_queue v \<and>
        prefix (snd (snd (gpst_mainloop env v))) [gpst_wire p]"
  proof (cases rule: mainloop_cases [of v env])
    case (early v1)
    with assms(1) show ?thesis by simp
  next
    case (reached v1 wd)
    from reached(1) assms(1) have c: "current_ssl_pkt v1 = Some p" by simp
    from outgoing_incomplete [OF c assms(2), of "now env" "reconnect_ret env" wd "[]"] reached(2,7)
    show ?thesis by simp
  qed
  then show "current_ssl_pkt (fst (snd (gpst_mainloop env v))) = Some p"
    and "outgoing_queue (fst (snd (gpst_mainloop env v))) = outgoing_queue v"
    and "prefix (snd (snd (gpst_mainloop env v))) [gpst_wire p]"
    by simp_all
qed

lemma mainloop_slot:
  assumes "current_ssl_pkt (fst (snd (gpst_mainloop env v))) = Some q"
  shows "current_ssl_pkt v = Some q \<or> q \<in> gpst_store_header ` set (outgoing_queue v)"
proof (cases rule: mainloop_cases [of v env])
  case (early v1)
  with assms show ?thesis by simp
next
  case (reached v1 wd)
  with assms outgoing_slot [of "now env" "reconnect_ret env" "writes env" v1 wd "[]" q]
  show ?thesis by simp
qed

lemma mainloop_last_tx:
  "last_tx (fst (snd (gpst_mainloop env v)))
     = (if snd (snd (gpst_mainloop env v)) = [] then last_tx v else now env)"
proof (cases rule: mainloop_cases [of v env])
  case (early v1)
  then show ?thesis by simp
next
  case (reached v1 wd)
  from outgoing_trace [of "now env" "reconnect_ret env" "writes env" v1 wd "[]"] reached(4,7)
  show ?thesis by auto
qed


lemmas mainloop_eval =
  gpst_mainloop_def gpst_outgoing.simps handle_outgoing_def write_ret_def gpst_wire_def
  do_reconnect_def vpninfo0_def pkt0_def Let_def

text \<open>
  Claim C3 (write retry). With a packet \<open>p\<close> in flight, whatever one invocation hands to
  \<open>ssl_nonblock_write\<close> is an initial segment of: the bytes \<open>p\<close> holds (its header as it
  stands and its payload, nothing stored into it), then the packets of the outgoing queue
  in order, each with the header stored when it was taken off the queue. The slot holds
  afterwards \<open>p\<close> itself or a packet that got its header on leaving the queue. When the
  write of \<open>p\<close> does not accept all \<open>len + 16\<close> bytes (error, would block, short write, or
  the write phase not reached), \<open>p\<close> stays in the slot unchanged, nothing is taken off the
  queue, and every later invocation starts its writes with the same bytes of \<open>p\<close>.
\<close>

theorem write_retry_identical:
  assumes "current_ssl_pkt v = Some p"
  shows
  "prefix (snd (snd (gpst_mainloop env v)))
     (gpst_wire p # map (gpst_wire \<circ> gpst_store_header) (outgoing_queue v)) \<and>
   (\<forall>q. current_ssl_pkt (fst (snd (gpst_mainloop env v))) = Some q \<longrightarrow>
      q = p \<or> q \<in> gpst_store_header ` set (outgoing_queue v)) \<and>
   (\<not> (0 < write_ret (writes env) \<and> write_ret (writes env) = len p + 16) \<longrightarrow>
      current_ssl_pkt (fst (snd (gpst_mainloop env v))) = Some p \<and>
      outgoing_queue (fst (snd (gpst_mainloop env v))) = outgoing_queue v \<and>
      prefix (snd (snd (gpst_mainloop env v))) [gpst_wire p] \<and>
      (\<forall>env2. prefix (snd (snd (gpst_mainloop env2 (fst (snd (gpst_mainloop env v))))))
         (gpst_wire p # map (gpst_wire \<circ> gpst_store_header) (outgoing_queue v))))"
proof (intro conjI allI impI)
  show "prefix (snd (snd (gpst_mainloop env v)))
     (gpst_wire p # map (gpst_wire \<circ> gpst_store_header) (outgoing_queue v))"
    using assms by (rule mainloop_sent_prefix)
next
  fix q assume "current_ssl_pkt (fst (snd (gpst_mainloop env v))) = Some q"
  from mainloop_slot [OF this] assms
  show "q = p \<or> q \<in> gpst_store_header ` set (outgoing_queue v)" by auto
next
  assume n: "\<not> (0 < write_ret (writes env) \<and> write_ret (writes env) = len p + 16)"
  show c: "current_ssl_pkt (fst (snd (gpst_mainloop env v))) = Some p"
    using assms n by (rule mainloop_incomplete)
  show q: "outgoing_queue (fst (snd (gpst_mainloop env v))) = outgoing_queue v"
    using assms n by (rule mainloop_incomplete)
  show "prefix (snd (snd (gpst_mainloop env v))) [gpst_wire p]"
    using assms n by (rule mainloop_incomplete)
  fix env2
  show "prefix (snd (snd (gpst_mainloop env2 (fst (snd (gpst_mainloop env v))))))
         (gpst_wire p # map (gpst_wire \<circ> gpst_store_header) (outgoing_queue v))"
    using mainloop_sent_prefix [OF c, of env2] by (simp only: q)
qed

theorem write_retry_identical_witness:
  "snd (snd (gpst_mainloop \<lparr>reads = [], writes = [0], reconnect_ret = 0, now = 5\<rparr>
        (vpninfo0\<lparr>current_ssl_pkt := Some pkt0\<rparr>)))
     = [[9, 9, 9, 9, 9, 9, 9, 9, 9, 9, 9, 9, 9, 9, 9, 9, 7, 8]] \<and>
   current_ssl_pkt (fst (snd (gpst_mainloop \<lparr>reads = [], writes = [0], reconnect_ret = 0, now = 5\<rparr>
        (vpninfo0\<lparr>current_ssl_pkt := Some pkt0\<rparr>)))) = Some pkt0 \<and>
   prefix
     (snd (snd (gpst_mainloop \<lparr>reads = [], writes = [18], reconnect_ret = 0, now = 6\<rparr>
        (fst (snd (gpst_mainloop \<lparr>reads = [], writes = [0], reconnect_ret = 0, now = 5\<rparr>
           (vpninfo0\<lparr>current_ssl_pkt := Some pkt0\<rparr>)))))))
     [[9, 9, 9, 9, 9, 9, 9, 9, 9, 9, 9, 9, 9, 9, 9, 9, 7, 8]]"
proof -
  have c: "current_ssl_pkt (vpninfo0\<lparr>current_ssl_pkt := Some pkt0\<rparr>) = Some pkt0"
    by simp
  have w: "gpst_wire pkt0 = [9, 9, 9, 9, 9, 9, 9, 9, 9, 9, 9, 9, 9, 9, 9, 9, 7, 8]"
    by (simp add: gpst_wire_def pkt0_def)
  have q: "outgoing_queue (vpninfo0\<lparr>current_ssl_pkt := Some pkt0\<rparr>) = []"
    by (simp add: vpninfo0_def)
  have s: "snd (snd (gpst_mainloop \<lparr>reads = [], writes = [0], reconnect_ret = 0, now = 5\<rparr>
        (vpninfo0\<lparr>current_ssl_pkt := Some pkt0\<rparr>)))
     = [[9, 9, 9, 9, 9, 9, 9, 9, 9, 9, 9, 9, 9, 9, 9, 9, 7, 8]]"
    by (simp add: mainloop_eval)
  let ?env1 = "\<lparr>reads = [], writes = [0], reconnect_ret = 0, now = 5\<rparr>"
  let ?env2 = "\<lparr>reads = [], writes = [18], reconnect_ret = 0, now = 6\<rparr>"
  let ?v = "vpninfo0\<lparr>current_ssl_pkt := Some pkt0\<rparr>"
  have n: "\<not> (0 < write_ret (writes ?env1) \<and> write_ret (writes ?env1) = len pkt0 + 16)"
    by (simp add: write_ret_def)
  from write_retry_identical [OF c, of ?env1] n
  have cur: "current_ssl_pkt (fst (snd (gpst_mainloop ?env1 ?v))) = Some pkt0"
    and all: "\<forall>env2. prefix (snd (snd (gpst_mainloop env2 (fst (snd (gpst_mainloop ?env1 ?v))))))
         (gpst_wire pkt0 # map (gpst_wire \<circ> gpst_store_header) (outgoing_queue ?v))"
    by blast+
  from all have "prefix (snd (snd (gpst_mainloop ?env2 (fst (snd (gpst_mainloop ?env1 ?v))))))
         (gpst_wire pkt0 # map (gpst_wire \<circ> gpst_store_header) (outgoing_queue ?v))"
    by blast
  then have "prefix (snd (snd (gpst_mainloop ?env2 (fst (snd (gpst_mainloop ?env1 ?v))))))
         [[9, 9, 9, 9, 9, 9, 9, 9, 9, 9, 9, 9, 9, 9, 9, 9, 7, 8]]"
    by (simp only: q w list.map)
  with s cur show ?thesis by (intro conjI)
qed

lemma prefix_Cons_nonempty:
  "prefix ext (x # xs) \<Longrightarrow> ext \<noteq> [] \<Longrightarrow> take 1 ext = [x]"
  by (cases ext) auto

text \<open>
  Claim C9 as stated has \<open>last_tx\<close> move only when a write accepts the whole frame. With
  a packet in flight and a transport that accepts nothing (the write returns 0), the
  packet stays in the slot and yet \<open>last_tx\<close> goes from 0 to the current time 5.
\<close>

theorem last_tx_set_on_blocked_write:
  "write_ret (writes \<lparr>reads = [], writes = [0], reconnect_ret = 0, now = 5\<rparr>) = 0 \<and>
   last_tx (vpninfo0\<lparr>current_ssl_pkt := Some pkt0\<rparr>) = 0 \<and>
   last_tx (fst (snd (gpst_mainloop \<lparr>reads = [], writes = [0], reconnect_ret = 0, now = 5\<rparr>
              (vpninfo0\<lparr>current_ssl_pkt := Some pkt0\<rparr>)))) = 5 \<and>
   current_ssl_pkt (fst (snd (gpst_mainloop \<lparr>reads = [], writes = [0], reconnect_ret = 0, now = 5\<rparr>
              (vpninfo0\<lparr>current_ssl_pkt := Some pkt0\<rparr>)))) = Some pkt0"
  by (simp add: mainloop_eval)

text \<open>
  Claim C9, amended (last-send time stamp). \<open>last_tx\<close> is set to the current time at every
  pass through \<open>handle_outgoing\<close>, before the write is issued and whatever it returns; so
  after an invocation \<open>last_tx\<close> is the current time exactly when at least one write was
  attempted, and unchanged otherwise. The slot in flight is cleared exactly when the write
  accepts all \<open>len + 16\<close> bytes; after any other result it still holds the packet.
\<close>

theorem last_tx_per_attempt:
  "last_tx (snd (handle_outgoing t ret v p)) = t \<and>
   (current_ssl_pkt v = Some p \<longrightarrow>
      (current_ssl_pkt (snd (handle_outgoing t ret v p)) = None
         \<longleftrightarrow> 0 < ret \<and> ret = len p + 16) \<and>
      (\<not> (0 < ret \<and> ret = len p + 16) \<longrightarrow>
         current_ssl_pkt (snd (handle_outgoing t ret v p)) = Some p)) \<and>
   last_tx (fst (snd (gpst_mainloop env v)))
     = (if snd (snd (gpst_mainloop env v)) = [] then last_tx v else now env)"
proof (intro conjI impI)
  show "last_tx (snd (handle_outgoing t ret v p)) = t"
    by (simp add: handle_outgoing_state)
  show "last_tx (fst (snd (gpst_mainloop env v)))
     = (if snd (snd (gpst_mainloop env v)) = [] then last_tx v else now env)"
    by (rule mainloop_last_tx)
next
  assume "current_ssl_pkt v = Some p"
  then show "current_ssl_pkt (snd (handle_outgoing t ret v p)) = None
         \<longleftrightarrow> 0 < ret \<and> ret = len p + 16"
    by (auto simp: handle_outgoing_state)
next
  assume "current_ssl_pkt v = Some p" "\<not> (0 < ret \<and> ret = len p + 16)"
  then show "current_ssl_pkt (snd (handle_outgoing t ret v p)) = Some p"
    by (auto simp: handle_outgoing_state)
qed

theorem last_tx_per_attempt_witness:
  "last_tx (snd (handle_outgoing 5 0 (vpninfo0\<lparr>current_ssl_pkt := Some pkt0\<rparr>) pkt0)) = 5 \<and>
   current_ssl_pkt (snd (handle_outgoing 5 0 (vpninfo0\<lparr>current_ssl_pkt := Some pkt0\<rparr>) pkt0))
     = Some pkt0 \<and>
   current_ssl_pkt (snd (handle_outgoing 5 18 (vpninfo0\<lparr>current_ssl_pkt := Some pkt0\<rparr>) pkt0))
     = None"
proof -
  have c: "current_ssl_pkt (vpninfo0\<lparr>current_ssl_pkt := Some pkt0\<rparr>) = Some pkt0"
    by simp
  have l: "len pkt0 + 16 = 18" by (simp add: pkt0_def)
  show ?thesis
    using last_tx_per_attempt [of 5 0 "vpninfo0\<lparr>current_ssl_pkt := Some pkt0\<rparr>" pkt0]
      last_tx_per_attempt [of 5 18 "vpninfo0\<lparr>current_ssl_pkt := Some pkt0\<rparr>" pkt0]
      c l
    by simp
qed

text \<open>
  Claim C10 (DTLS connected). With a packet \<open>p\<close> in flight, the writes of an invocation
  with the DTLS channel connected are the first write of the same invocation without it:
  the flag changes nothing but the taking of packets off the outgoing queue, which stays
  as it is when the channel is connected. Whenever the write phase is reached (the
  transport is open and the receive loop ends on a read of nothing), \<open>p\<close> is written to
  the SSL transport although the channel is connected.
\<close>

theorem dtls_connected_still_retries:
  assumes "current_ssl_pkt v = Some p"
  shows
  "snd (snd (gpst_mainloop env (v\<lparr>dtls_state := DTLS_CONNECTED\<rparr>)))
     = take 1 (snd (snd (gpst_mainloop env (v\<lparr>dtls_state := DTLS_NOT_CONNECTED\<rparr>)))) \<and>
   outgoing_queue (fst (snd (gpst_mainloop env (v\<lparr>dtls_state := DTLS_CONNECTED\<rparr>))))
     = outgoing_queue v \<and>
   (ssl_fd v \<noteq> - 1 \<and> fst (gpst_read_loop (now env) (reads env) v 0) = ReadDone \<longrightarrow>
      snd (snd (gpst_mainloop env (v\<lparr>dtls_state := DTLS_CONNECTED\<rparr>))) = [gpst_wire p])"
proof -
  let ?vc = "v\<lparr>dtls_state := DTLS_CONNECTED\<rparr>"
  let ?vn = "v\<lparr>dtls_state := DTLS_NOT_CONNECTED\<rparr>"
  obtain ex v1 wd where r: "gpst_read_loop (now env) (reads env) v 0 = (ex, v1, wd)"
    by (cases "gpst_read_loop (now env) (reads env) v 0")
  have rc: "gpst_read_loop (now env) (reads env) ?vc 0 = (ex, v1\<lparr>dtls_state := DTLS_CONNECTED\<rparr>, wd)"
    and rn: "gpst_read_loop (now env) (reads env) ?vn 0
               = (ex, v1\<lparr>dtls_state := DTLS_NOT_CONNECTED\<rparr>, wd)"
    by (simp_all add: read_loop_dtls r)
  note k = read_loop_keeps [OF r]
  show ?thesis
  proof (cases "ssl_fd v \<noteq> - 1 \<and> ex = ReadDone")
    case False
    have "snd (snd (gpst_mainloop env ?vc)) = []" "snd (snd (gpst_mainloop env ?vn)) = []"
      "outgoing_queue (fst (snd (gpst_mainloop env ?vc))) = outgoing_queue v"
      using False k
      by (cases ex; auto simp: gpst_mainloop_def rc rn do_reconnect_keeps)+
    with False r show ?thesis by auto
  next
    case True
    let ?v1c = "v1\<lparr>dtls_state := DTLS_CONNECTED\<rparr>"
    let ?v1n = "v1\<lparr>dtls_state := DTLS_NOT_CONNECTED\<rparr>"
    have mc: "gpst_mainloop env ?vc
                = gpst_outgoing (now env) (reconnect_ret env) (writes env) ?v1c wd []"
      and mn: "gpst_mainloop env ?vn
                = gpst_outgoing (now env) (reconnect_ret env) (writes env) ?v1n wd []"
      using True by (simp_all add: gpst_mainloop_def rc rn)
    have cur: "current_ssl_pkt v1 = Some p" using k assms by simp
    have sc: "snd (snd (gpst_mainloop env ?vc)) = [gpst_wire p]"
      and qc: "outgoing_queue (fst (snd (gpst_mainloop env ?vc))) = outgoing_queue v"
      using outgoing_dtls_connected [of ?v1c "now env" "reconnect_ret env" "writes env" wd "[]"]
        cur k
      by (simp_all add: mc)
    from outgoing_trace [of "now env" "reconnect_ret env" "writes env" ?v1n wd "[]"]
    obtain ext where e: "snd (snd (gpst_mainloop env ?vn)) = ext"
      and p: "prefix ext (map gpst_wire (pending ?v1n))"
      and ne: "ext = [] \<longrightarrow> current_ssl_pkt ?v1n = None"
      by (auto simp: mn)
    from ne cur have "ext \<noteq> []" by auto
    moreover from p cur
    have "prefix ext (gpst_wire p # map gpst_wire (map gpst_store_header (outgoing_queue v1)))"
      by (simp add: pending_def)
    ultimately have "take 1 ext = [gpst_wire p]" by (rule prefix_Cons_nonempty [rotated])
    with sc qc e show ?thesis by simp
  qed
qed

theorem dtls_connected_still_retries_witness:
  "snd (snd (gpst_mainloop \<lparr>reads = [], writes = [18], reconnect_ret = 0, now = 5\<rparr>
      (vpninfo0\<lparr>current_ssl_pkt := Some pkt0, outgoing_queue := [pkt0],
                 dtls_state := DTLS_CONNECTED\<rparr>)))
     = [[9, 9, 9, 9, 9, 9, 9, 9, 9, 9, 9, 9, 9, 9, 9, 9, 7, 8]] \<and>
   outgoing_queue (fst (snd (gpst_mainloop \<lparr>reads = [], writes = [18], reconnect_ret = 0, now = 5\<rparr>
      (vpninfo0\<lparr>current_ssl_pkt := Some pkt0, outgoing_queue := [pkt0],
                 dtls_state := DTLS_CONNECTED\<rparr>)))) = [pkt0]"
proof -
  let ?v = "vpninfo0\<lparr>current_ssl_pkt := Some pkt0, outgoing_queue := [pkt0]\<rparr>"
  let ?env = "\<lparr>reads = [], writes = [18], reconnect_ret = 0, now = 5\<rparr>"
  have c: "current_ssl_pkt ?v = Some pkt0" by simp
  have f: "ssl_fd ?v \<noteq> - 1 \<and> fst (gpst_read_loop (now ?env) (reads ?env) ?v 0) = ReadDone"
    by (simp add: vpninfo0_def)
  have w: "gpst_wire pkt0 = [9, 9, 9, 9, 9, 9, 9, 9, 9, 9, 9, 9, 9, 9, 9, 9, 7, 8]"
    by (simp add: gpst_wire_def pkt0_def)
  from dtls_connected_still_retries [OF c, of ?env] f
  have "snd (snd (gpst_mainloop ?env (?v\<lparr>dtls_state := DTLS_CONNECTED\<rparr>))) = [gpst_wire pkt0]"
    and "outgoing_queue (fst (snd (gpst_mainloop ?env (?v\<lparr>dtls_state := DTLS_CONNECTED\<rparr>))))
           = outgoing_queue ?v"
    by blast+
  then show ?thesis by (simp add: w)
qed

end
